theory Spec2Isabelle
  imports Main "HOL-Library.Word" "HOL-Library.List_Lexorder" "HOL-Library.Multiset"
    "HOL-Library.AList"
begin

unbundle bit_operations_syntax

section \<open>JavaScript strings\<close>

text \<open>
  A JavaScript string is a sequence of UTF-16 code units; \<open>length\<close>, \<open>charCodeAt\<close>,
  \<open>split\<close>, \<open>includes\<close> and the default \<open>sort\<close> comparison all work on code units.
  A string is modelled as the list of its code units, so that the bullet character
  U+2022 is the single unit 8226. \<open>str\<close> turns an ASCII literal into such a list.
\<close>

type_synonym jsstring = "nat list"

definition str :: "string \<Rightarrow> jsstring" where
  "str s = map of_char s"

text \<open>
  White space as \<open>String.prototype.trim\<close> and the regular expression class \<open>\s\<close>
  understand it: the ECMAScript WhiteSpace and LineTerminator code points.
\<close>

definition isSpace :: "nat \<Rightarrow> bool" where
  "isSpace c \<longleftrightarrow>
     c = 9 \<or> c = 10 \<or> c = 11 \<or> c = 12 \<or> c = 13 \<or> c = 32 \<or> c = 160 \<or> c = 5760 \<or>
     (8192 \<le> c \<and> c \<le> 8202) \<or> c = 8232 \<or> c = 8233 \<or> c = 8239 \<or> c = 8287 \<or>
     c = 12288 \<or> c = 65279"

definition isDigit :: "nat \<Rightarrow> bool" where
  "isDigit c \<longleftrightarrow> 48 \<le> c \<and> c \<le> 57"

definition isUpperAZ :: "nat \<Rightarrow> bool" where
  "isUpperAZ c \<longleftrightarrow> 65 \<le> c \<and> c \<le> 90"

definition isLowerAZ :: "nat \<Rightarrow> bool" where
  "isLowerAZ c \<longleftrightarrow> 97 \<le> c \<and> c \<le> 122"

definition trimStart :: "jsstring \<Rightarrow> jsstring" where
  "trimStart s = dropWhile isSpace s"

definition trimEnd :: "jsstring \<Rightarrow> jsstring" where
  "trimEnd s = rev (dropWhile isSpace (rev s))"

definition trim :: "jsstring \<Rightarrow> jsstring" where
  "trim s = trimEnd (trimStart s)"

fun startsWith :: "jsstring \<Rightarrow> jsstring \<Rightarrow> bool" where
  "startsWith s [] = True"
| "startsWith [] (p # ps) = False"
| "startsWith (c # cs) (p # ps) = (c = p \<and> startsWith cs ps)"

text \<open>\<open>s.includes(sub)\<close>: \<open>sub\<close> occurs in \<open>s\<close> as a contiguous run.\<close>

fun str_includes :: "jsstring \<Rightarrow> jsstring \<Rightarrow> bool" where
  "str_includes [] sub = (sub = [])"
| "str_includes (c # cs) sub = (startsWith (c # cs) sub \<or> str_includes cs sub)"

text \<open>\<open>s.split(sep)\<close> for a one-unit separator: never empty, \<open>''.split(sep) = ['']\<close>.\<close>

fun splitOn :: "nat \<Rightarrow> jsstring \<Rightarrow> jsstring list" where
  "splitOn sep [] = [[]]"
| "splitOn sep (c # cs) =
     (if c = sep then [] # splitOn sep cs
      else (case splitOn sep cs of [] \<Rightarrow> [[c]] | piece # pieces \<Rightarrow> (c # piece) # pieces))"

fun joinWith :: "jsstring \<Rightarrow> jsstring list \<Rightarrow> jsstring" where
  "joinWith sep [] = []"
| "joinWith sep [x] = x"
| "joinWith sep (x # y # ys) = x @ sep @ joinWith sep (y # ys)"

text \<open>Decimal rendering of a non-negative integer, as template literals do.\<close>

fun decimal :: "nat \<Rightarrow> jsstring" where
  "decimal n = (if n < 10 then [48 + n] else decimal (n div 10) @ [48 + n mod 10])"

declare decimal.simps [simp del]

section \<open>GeminiAPIClient\<close>

text \<open>
  What one \<open>fetch\<close> can do. Either the promise rejects (a transport failure, with the
  rejection's message), or it resolves to a response with a status, a status text and a
  body. \<open>response.json()\<close> on the body either rejects (with a message) or yields the
  parsed object, of which the code reads \<open>error.message\<close>, \<open>candidates[0].finishReason\<close>
  and \<open>candidates[0].content.parts[0].text\<close>. Every field may be absent.
\<close>

record candidate =
  finishReason :: "jsstring option"
  partText :: "jsstring option option"
    \<comment> \<open>\<open>None\<close>: no \<open>content.parts[0]\<close>; \<open>Some None\<close>: the part has no \<open>text\<close>\<close>

record json_body =
  errorMessage :: "jsstring option"
  firstCandidate :: "candidate option"

datatype body = BadJson jsstring | Json json_body

datatype fetch_result = Rejected jsstring | Response nat jsstring body

text \<open>
  The endpoint is an oracle: the answer to the \<open>i\<close>-th request the process has issued
  (counting from 0), given the prompt it carried. The world keeps every prompt sent, in
  order, so the number of remote calls is the length of that log. The suspension of
  \<open>delay\<close> changes nothing but time and is not modelled.
\<close>

type_synonym endpoint = "nat \<Rightarrow> jsstring \<Rightarrow> fetch_result"

datatype try_outcome = Returned "jsstring option" | Continued | Thrown jsstring

definition response_ok :: "nat \<Rightarrow> bool" where
  "response_ok status \<longleftrightarrow> 200 \<le> status \<and> status \<le> 299"

definition msg_rate_limit :: jsstring where
  "msg_rate_limit = str ''Rate limit exceeded. Please try again later.''"

definition msg_api_key :: jsstring where
  "msg_api_key = str ''API key is invalid or access is denied. Please check your API key.''"

definition msg_safety :: jsstring where
  "msg_safety = str ''Content was blocked due to safety concerns. Please try with different text.''"

definition msg_invalid_format :: jsstring where
  "msg_invalid_format = str ''Invalid response format from API''"

text \<open>\<open>errorData.error?.message || 'Bad request'\<close>; a rejected \<open>json()\<close> gives \<open>{}\<close>.\<close>

definition error_detail :: "body \<Rightarrow> jsstring" where
  "error_detail b =
     (case b of
        BadJson _ \<Rightarrow> str ''Bad request''
      | Json d \<Rightarrow> (case errorMessage d of
                     None \<Rightarrow> str ''Bad request''
                   | Some m \<Rightarrow> if m = [] then str ''Bad request'' else m))"

text \<open>The body of the \<open>try\<close> block for one attempt, given what \<open>fetch\<close> did.\<close>

definition try_body :: "nat \<Rightarrow> nat \<Rightarrow> fetch_result \<Rightarrow> try_outcome" where
  "try_body retryAttempts attempt r =
     (case r of
        Rejected m \<Rightarrow> Thrown m
      | Response status statusText b \<Rightarrow>
          if \<not> response_ok status then
            (if status = 429 then
               (if attempt < retryAttempts then Continued else Thrown msg_rate_limit)
             else if status = 400 then Thrown (str ''Invalid request: '' @ error_detail b)
             else if status = 403 then Thrown msg_api_key
             else Thrown (str ''API request failed: '' @ decimal status @ str '' '' @ statusText))
          else
            (case b of
               BadJson m \<Rightarrow> Thrown m
             | Json d \<Rightarrow>
                 (case firstCandidate d of
                    None \<Rightarrow> Thrown msg_invalid_format
                  | Some c \<Rightarrow>
                      if finishReason c = Some (str ''SAFETY'') then Thrown msg_safety
                      else (case partText c of
                              None \<Rightarrow> Thrown msg_invalid_format
                            | Some t \<Rightarrow> Returned t))))"

datatype catch_outcome = Retry | Rethrow | Break

text \<open>The \<open>catch\<close> block, after \<open>lastError = error\<close>.\<close>

definition catch_block :: "nat \<Rightarrow> nat \<Rightarrow> jsstring \<Rightarrow> catch_outcome" where
  "catch_block retryAttempts attempt m =
     (if (str_includes m (str ''fetch'') \<or> str_includes m (str ''network''))
         \<and> attempt < retryAttempts then Retry
      else if str_includes m (str ''API key'') \<or> str_includes m (str ''Invalid request'')
              \<or> str_includes m (str ''safety concerns'') then Rethrow
      else if attempt = retryAttempts then Break
      else Retry)"

text \<open>
  The observable trace of a run: the prompt of every request issued, oldest first, and
  every invocation of a progress callback, as \<open>completedModules\<close>, \<open>totalModules\<close>
  (the percentage passed is \<open>completedModules / totalModules * 100\<close>) and the message.
\<close>

record world =
  sent :: "jsstring list"
  reported :: "(nat \<times> nat \<times> jsstring) list"

definition msg_after_retries :: "nat \<Rightarrow> jsstring \<Rightarrow> jsstring" where
  "msg_after_retries retryAttempts m =
     str ''Analysis failed after '' @ decimal retryAttempts @ str '' attempts: '' @ m"

text \<open>
  Reading \<open>lastError.message\<close> when no attempt ran (\<open>retryAttempts = 0\<close>) is a TypeError
  of the engine, whose text is the engine's own; the model fixes one.
\<close>

definition msg_undefined_message :: jsstring where
  "msg_undefined_message = str ''Cannot read properties of undefined (reading message)''"

function (sequential) attempts ::
  "endpoint \<Rightarrow> nat \<Rightarrow> jsstring \<Rightarrow> nat \<Rightarrow> jsstring option \<Rightarrow> 'a world_scheme
     \<Rightarrow> (jsstring + jsstring option) \<times> 'a world_scheme" where
  "attempts ep retryAttempts prompt attempt lastError w =
     (if attempt \<le> retryAttempts then
        (let r = ep (length (sent w)) prompt;
             w' = w\<lparr>sent := sent w @ [prompt]\<rparr>
         in case try_body retryAttempts attempt r of
              Returned t \<Rightarrow> (Inr t, w')
            | Continued \<Rightarrow> attempts ep retryAttempts prompt (attempt + 1) lastError w'
            | Thrown m \<Rightarrow>
                (case catch_block retryAttempts attempt m of
                   Retry \<Rightarrow> attempts ep retryAttempts prompt (attempt + 1) (Some m) w'
                 | Rethrow \<Rightarrow> (Inl m, w')
                 | Break \<Rightarrow> (Inl (msg_after_retries retryAttempts m), w')))
      else
        (case lastError of
           None \<Rightarrow> (Inl msg_undefined_message, w)
         | Some m \<Rightarrow> (Inl (msg_after_retries retryAttempts m), w)))"
  by pat_completeness auto
termination
  by (relation "measure (\<lambda>(ep, n, p, a, l, w). n + 1 - a)") auto

declare attempts.simps [simp del]

definition generateContent ::
  "endpoint \<Rightarrow> nat \<Rightarrow> jsstring \<Rightarrow> 'a world_scheme
     \<Rightarrow> (jsstring + jsstring option) \<times> 'a world_scheme" where
  "generateContent ep retryAttempts prompt w = attempts ep retryAttempts prompt 1 None w"

section \<open>AnalysisPrompts\<close>

text \<open>
  The five prompt templates are long literals of the source; the model takes them as
  a parameter. \<open>this.prompts\<close> is a plain object, so \<open>this.prompts[module]\<close> also
  finds what the object inherits from \<open>Object.prototype\<close> (\<open>constructor\<close>,
  \<open>toString\<close>, \<open>__proto__\<close>, ...). Which names those are, and what text the template
  literal makes of the inherited value, belongs to the engine: \<open>inherited\<close> gives that
  text for a name the object inherits, and \<open>None\<close> for any other name.
\<close>

record AnalysisPrompts =
  vocabularyPrompt :: jsstring
  grammarPrompt :: jsstring
  structurePrompt :: jsstring
  contentPrompt :: jsstring
  complexityPrompt :: jsstring
  inherited :: "jsstring \<Rightarrow> jsstring option"

text \<open>
  \<open>this.prompts[module]\<close>: one of the five templates (an own key comes before an
  inherited one), an inherited function or object, or \<open>undefined\<close>.
\<close>

datatype prompt_property = Template jsstring | Inherited jsstring | Undefined

definition prompts_lookup :: "AnalysisPrompts \<Rightarrow> jsstring \<Rightarrow> prompt_property" where
  "prompts_lookup P module =
     (if module = str ''vocabulary'' then Template (vocabularyPrompt P)
      else if module = str ''grammar'' then Template (grammarPrompt P)
      else if module = str ''structure'' then Template (structurePrompt P)
      else if module = str ''content'' then Template (contentPrompt P)
      else if module = str ''complexity'' then Template (complexityPrompt P)
      else (case inherited P module of Some s \<Rightarrow> Inherited s | None \<Rightarrow> Undefined))"

text \<open>The template literal that \<open>getPrompt\<close> returns, for a base prompt and a text.\<close>

definition promptWith :: "jsstring \<Rightarrow> jsstring \<Rightarrow> jsstring" where
  "promptWith basePrompt text =
     basePrompt @ [10, 10] @ str ''Text to analyze:'' @ [10, 34] @ text @ [34, 10, 10] @
     str ''Please provide a detailed analysis following the format specified above.''"

text \<open>
  \<open>this.prompts[module] || this.prompts.vocabulary\<close> falls back to the vocabulary
  template for \<open>undefined\<close> and for an empty template; an inherited function or object
  is truthy and is used as it is.
\<close>

definition getPrompt :: "AnalysisPrompts \<Rightarrow> jsstring \<Rightarrow> jsstring \<Rightarrow> jsstring" where
  "getPrompt P module text =
     (let basePrompt = (case prompts_lookup P module of
                          Template p \<Rightarrow> if p = [] then vocabularyPrompt P else p
                        | Inherited s \<Rightarrow> s
                        | Undefined \<Rightarrow> vocabularyPrompt P)
      in promptWith basePrompt text)"

section \<open>Interpreting a response\<close>

text \<open>
  The regular expressions are written out as functions on code units. Their classes
  (\<open>\d\<close>, the dot, \<open>\s\<close>, \<open>[A-Z]\<close>) are pairwise disjoint, so the greedy match is the
  only one and no backtracking is involved.
\<close>

text \<open>\<open>/^\d+\.\s+[A-Z]/\<close>\<close>

definition matchesHeading :: "jsstring \<Rightarrow> bool" where
  "matchesHeading s =
     (takeWhile isDigit s \<noteq> [] \<and>
      (case dropWhile isDigit s of
         [] \<Rightarrow> False
       | c # r \<Rightarrow> c = 46 \<and> takeWhile isSpace r \<noteq> [] \<and>
                 (case dropWhile isSpace r of [] \<Rightarrow> False | u # _ \<Rightarrow> isUpperAZ u)))"

text \<open>\<open>s.replace(/^\d+\.\s+/, '')\<close>\<close>

definition stripNumber :: "jsstring \<Rightarrow> jsstring" where
  "stripNumber s =
     (if takeWhile isDigit s = [] then s
      else (case dropWhile isDigit s of
              [] \<Rightarrow> s
            | c # r \<Rightarrow> if c = 46 \<and> takeWhile isSpace r \<noteq> [] then dropWhile isSpace r else s))"

text \<open>
  \<open>toLowerCase\<close>, as far as the section name can tell: the name keeps only \<open>a-z\<close> and
  white space afterwards, and the units whose lower case contains such a unit are
  \<open>A-Z\<close>, U+0130 (to \<open>i\<close> and U+0307) and the Kelvin sign U+212A (to \<open>k\<close>). Every
  other unit is left as it is here.
\<close>

definition lowerUnit :: "nat \<Rightarrow> jsstring" where
  "lowerUnit c =
     (if isUpperAZ c then [c + 32]
      else if c = 304 then [105, 775]
      else if c = 8490 then [107]
      else [c])"

definition toLowerCase :: "jsstring \<Rightarrow> jsstring" where
  "toLowerCase s = concat (map lowerUnit s)"

definition sectionName :: "jsstring \<Rightarrow> jsstring" where
  "sectionName trimmedLine =
     trim (filter (\<lambda>c. isLowerAZ c \<or> isSpace c) (stripNumber (toLowerCase trimmedLine)))"

text \<open>
  An object with string keys is an association list in insertion order: assigning to
  a key that exists replaces its value in place, a new key goes to the end
  (\<open>AList.update\<close>). That is the order of \<open>Object.entries\<close> for keys that are not array
  indices; section names have no digits.
\<close>

type_synonym sections = "(jsstring \<times> jsstring) list"

text \<open>
  \<open>if (currentContent.length > 0) sections[currentSection] = currentContent.join('\n')\<close>,
  as the loop does at a heading and the function does after the loop.
\<close>

definition flushSection :: "sections \<Rightarrow> jsstring \<Rightarrow> jsstring list \<Rightarrow> sections" where
  "flushSection secs currentSection currentContent =
     (if currentContent \<noteq> []
      then AList.update currentSection (joinWith [10] currentContent) secs else secs)"

fun sections_loop ::
  "jsstring list \<Rightarrow> sections \<times> jsstring \<times> jsstring list \<Rightarrow> sections \<times> jsstring \<times> jsstring list" where
  "sections_loop [] st = st"
| "sections_loop (line # lines) (secs, currentSection, currentContent) =
     (let trimmedLine = trim line in
      if matchesHeading trimmedLine then
        sections_loop lines
          (flushSection secs currentSection currentContent, sectionName trimmedLine, [])
      else if trimmedLine \<noteq> [] then
        sections_loop lines (secs, currentSection, currentContent @ [trimmedLine])
      else sections_loop lines (secs, currentSection, currentContent))"

definition extractSections :: "jsstring \<Rightarrow> sections" where
  "extractSections response =
     (case sections_loop (splitOn 10 response) ([], str ''general'', []) of
        (secs, currentSection, currentContent) \<Rightarrow>
          flushSection secs currentSection currentContent)"

text \<open>\<open>/^\d+\./\<close>\<close>

definition matchesNumbered :: "jsstring \<Rightarrow> bool" where
  "matchesNumbered s =
     (takeWhile isDigit s \<noteq> [] \<and> (case dropWhile isDigit s of [] \<Rightarrow> False | c # _ \<Rightarrow> c = 46))"

text \<open>\<open>s.replace(/^[-\<bullet>\d.]\s*/, '')\<close>, the bullet being U+2022: one unit of the class, then white space.\<close>

definition stripMarker :: "jsstring \<Rightarrow> jsstring" where
  "stripMarker s =
     (case s of
        [] \<Rightarrow> []
      | c # cs \<Rightarrow> if c = 45 \<or> c = 8226 \<or> isDigit c \<or> c = 46 then dropWhile isSpace cs else s)"

text \<open>\<open>s.split(/[,;]/)[0]\<close>\<close>

definition firstToken :: "jsstring \<Rightarrow> jsstring" where
  "firstToken s = takeWhile (\<lambda>c. c \<noteq> 44 \<and> c \<noteq> 59) s"

fun wordsOfLines :: "jsstring list \<Rightarrow> jsstring list" where
  "wordsOfLines [] = []"
| "wordsOfLines (line # lines) =
     (let trimmed = trim line in
      if startsWith trimmed [45] \<or> startsWith trimmed [8226] \<or> matchesNumbered trimmed then
        (let word = trim (firstToken (stripMarker trimmed)) in
         if word \<noteq> [] then word # wordsOfLines lines else wordsOfLines lines)
      else wordsOfLines lines)"

definition extractWordList :: "jsstring \<Rightarrow> jsstring list" where
  "extractWordList content = wordsOfLines (splitOn 10 content)"

record levels =
  basic :: "jsstring list"
  intermediate :: "jsstring list"
  advanced :: "jsstring list"

fun difficulty_loop :: "sections \<Rightarrow> levels \<Rightarrow> levels" where
  "difficulty_loop [] lv = lv"
| "difficulty_loop ((section, content) # rest) lv =
     (if str_includes section (str ''basic'') \<or> str_includes section (str ''a1'')
         \<or> str_includes section (str ''a2'')
      then difficulty_loop rest (lv\<lparr>basic := extractWordList content\<rparr>)
      else if str_includes section (str ''intermediate'') \<or> str_includes section (str ''b1'')
         \<or> str_includes section (str ''b2'')
      then difficulty_loop rest (lv\<lparr>intermediate := extractWordList content\<rparr>)
      else if str_includes section (str ''advanced'') \<or> str_includes section (str ''c1'')
         \<or> str_includes section (str ''c2'')
      then difficulty_loop rest (lv\<lparr>advanced := extractWordList content\<rparr>)
      else difficulty_loop rest lv)"

definition extractDifficultyLevels :: "sections \<Rightarrow> levels" where
  "extractDifficultyLevels secs =
     difficulty_loop secs \<lparr>basic = [], intermediate = [], advanced = []\<rparr>"

definition extractAcademicVocabulary :: "sections \<Rightarrow> jsstring list" where
  "extractAcademicVocabulary secs =
     (case find (\<lambda>(section, content). str_includes section (str ''academic'')) secs of
        Some (section, content) \<Rightarrow> extractWordList content
      | None \<Rightarrow> [])"

definition extractCollocations :: "sections \<Rightarrow> jsstring list" where
  "extractCollocations secs =
     (case find (\<lambda>(section, content). str_includes section (str ''collocation'')
                                        \<or> str_includes section (str ''phrase'')) secs of
        Some (section, content) \<Rightarrow> extractWordList content
      | None \<Rightarrow> [])"

record vocabulary_data =
  difficultyLevels :: levels
  academicVocabulary :: "jsstring list"
  collocations :: "jsstring list"
  frequencyAnalysis :: jsstring

definition parseVocabularyResponse :: "jsstring \<Rightarrow> vocabulary_data" where
  "parseVocabularyResponse response =
     (let secs = extractSections response in
      \<lparr>difficultyLevels = extractDifficultyLevels secs,
       academicVocabulary = extractAcademicVocabulary secs,
       collocations = extractCollocations secs,
       frequencyAnalysis = str ''Frequency analysis completed''\<rparr>)"

section \<open>AnalysisEngineWrapper\<close>

text \<open>
  \<open>text.trim().split(/\s+/).length\<close>: the number of maximal runs of units that are not
  white space, for a text that is not blank.
\<close>

fun countRuns :: "bool \<Rightarrow> jsstring \<Rightarrow> nat" where
  "countRuns inWord [] = 0"
| "countRuns inWord (c # cs) =
     (if isSpace c then countRuns False cs
      else if inWord then countRuns True cs else Suc (countRuns True cs))"

definition countWords :: "jsstring \<Rightarrow> nat" where
  "countWords text = (if trim text = [] then 0 else countRuns False (trim text))"

text \<open>
  \<open>simpleHash\<close>: \<open>hash << 5\<close> and \<open>hash & hash\<close> work on 32-bit two's complement
  integers, and the subtraction and addition between them are exact, so every step is
  arithmetic on a 32-bit word. \<open>Math.abs\<close> reads the word as signed; \<open>toString(36)\<close>
  writes the magnitude with the digits \<open>0-9a-z\<close>.
\<close>

definition hashStep :: "32 word \<Rightarrow> nat \<Rightarrow> 32 word" where
  "hashStep hash char = (push_bit 5 hash - hash) + of_nat char"

definition digit36 :: "nat \<Rightarrow> nat" where
  "digit36 d = (if d < 10 then 48 + d else 87 + d)"

fun base36 :: "nat \<Rightarrow> jsstring" where
  "base36 n = (if n < 36 then [digit36 n] else base36 (n div 36) @ [digit36 (n mod 36)])"

declare base36.simps [simp del]

definition simpleHash :: "jsstring \<Rightarrow> jsstring" where
  "simpleHash s = base36 (nat \<bar>sint (foldl hashStep 0 s)\<bar>)"

text \<open>
  \<open>modules.sort()\<close> sorts the array it is called on in place, by code-unit order of the
  names, and returns that same array. \<open>generateCacheKey\<close> therefore returns the key
  together with the state of the caller's \<open>modules\<close> array after the call.
\<close>

definition generateCacheKey :: "jsstring \<Rightarrow> jsstring list \<Rightarrow> jsstring \<times> jsstring list" where
  "generateCacheKey text modules =
     (let textHash = simpleHash text;
          sorted_modules = sort modules;
          moduleKey = joinWith [44] sorted_modules
      in (textHash @ [95] @ moduleKey, sorted_modules))"

text \<open>
  The value of \<open>structured\<close>. The vocabulary parser is modelled in full. The grammar,
  structure, content and complexity parsers compute their fields from the sections by
  searches that have defaults and cannot throw on a string; the model keeps the sections
  they read. Any other module name gets \<open>{ summary: response }\<close>.
\<close>

datatype structured =
  Vocabulary vocabulary_data
| Sectioned sections
| Summary "jsstring option"

text \<open>
  The three shapes of a module's entry: the processed data (\<open>module\<close>, \<open>rawResponse\<close>,
  \<open>wordCount\<close>, \<open>structured\<close>), the record of a processing failure (\<open>module\<close>,
  \<open>rawResponse\<close>, \<open>error\<close>) and the record \<open>analyzeText\<close> writes in its \<open>catch\<close>
  (\<open>error\<close>, \<open>module\<close>). The \<open>timestamp\<close> fields are left out.
\<close>

datatype entry =
  Processed jsstring "jsstring option" nat structured
| Unprocessed jsstring "jsstring option" jsstring
| Failed jsstring jsstring

fun entry_error :: "entry \<Rightarrow> jsstring option" where
  "entry_error (Processed m r n s) = None"
| "entry_error (Unprocessed m r e) = Some e"
| "entry_error (Failed e m) = Some e"

definition default_modules :: "jsstring list" where
  "default_modules =
     [str ''vocabulary'', str ''grammar'', str ''structure'', str ''content'', str ''complexity'']"

text \<open>
  A response that is \<open>undefined\<close> (a part without \<open>text\<close>) makes \<open>response.split\<close> throw
  in the five parsers; the \<open>catch\<close> of \<open>processModuleResponse\<close> turns that into an
  entry. The TypeError's text is the engine's own; the model fixes one.
\<close>

definition msg_processing_failed :: jsstring where
  "msg_processing_failed =
     str ''Processing failed: Cannot read properties of undefined (reading split)''"

definition processModuleResponse :: "jsstring \<Rightarrow> jsstring option \<Rightarrow> jsstring \<Rightarrow> entry" where
  "processModuleResponse module response originalText =
     (if module \<in> set default_modules then
        (case response of
           None \<Rightarrow> Unprocessed module response msg_processing_failed
         | Some r \<Rightarrow>
             Processed module response (countWords originalText)
               (if module = str ''vocabulary'' then Vocabulary (parseVocabularyResponse r)
                else Sectioned (extractSections r)))
      else Processed module response (countWords originalText) (Summary response))"

text \<open>
  The results object: the five fixed fields and one entry per module, keyed by the
  module's name, which is taken to be an ordinary property key (not \<open>__proto__\<close>).
\<close>

datatype jsvalue = VString jsstring | VNumber int | VEntry entry

type_synonym report = "(jsstring \<times> jsvalue) list"

text \<open>
  The engine: the trace, the client's \<open>retryAttempts\<close>, the prompt templates and the
  cache (a \<open>Map\<close> from key to the stored results object). The rate limiter only
  suspends the caller and never throws; it is not modelled.
\<close>

record engine = world +
  retryAttempts :: nat
  prompts :: AnalysisPrompts
  cache :: "jsstring \<rightharpoonup> report"

text \<open>
  What the clock gives: \<open>new Date().toISOString()\<close> for \<open>analysisDate\<close>, and
  \<open>Date.now() - startTime\<close> at the end of the loop.
\<close>

record environment =
  endpoint :: endpoint
  isoNow :: jsstring
  elapsed :: int

text \<open>
  \<open>options\<close>: \<open>modules\<close> is absent or an array of names (an array, even empty, is truthy,
  so \<open>options.modules || [...]\<close> keeps it); \<open>onProgress\<close> is supplied or not. A
  supplied callback is taken not to throw.
\<close>

record options =
  modules :: "jsstring list option"
  onProgress :: bool

definition runModuleAnalysis ::
  "environment \<Rightarrow> engine \<Rightarrow> jsstring \<Rightarrow> jsstring \<Rightarrow> (jsstring + entry) \<times> engine" where
  "runModuleAnalysis env w text module =
     (let prompt = getPrompt (prompts w) module text in
      case generateContent (endpoint env) (retryAttempts w) prompt w of
        (Inl e, w') \<Rightarrow> (Inl e, w')
      | (Inr response, w') \<Rightarrow> (Inr (processModuleResponse module response text), w'))"

definition msg_completed :: "jsstring \<Rightarrow> jsstring" where
  "msg_completed module = str ''Completed '' @ module @ str '' analysis''"

text \<open>The \<open>for\<close> loop over the modules, with its \<open>try\<close> and \<open>catch\<close>.\<close>

fun modules_loop ::
  "environment \<Rightarrow> jsstring \<Rightarrow> bool \<Rightarrow> nat \<Rightarrow> jsstring list \<Rightarrow> engine \<times> report \<times> nat
     \<Rightarrow> engine \<times> report \<times> nat" where
  "modules_loop env text progress totalModules [] st = st"
| "modules_loop env text progress totalModules (module # rest) (w, results, completedModules) =
     (case runModuleAnalysis env w text module of
        (Inr data, w') \<Rightarrow>
          modules_loop env text progress totalModules rest
            (if progress
             then w'\<lparr>reported := reported w' @
                      [(completedModules + 1, totalModules, msg_completed module)]\<rparr>
             else w',
             AList.update module (VEntry data) results,
             completedModules + 1)
      | (Inl e, w') \<Rightarrow>
          modules_loop env text progress totalModules rest
            (w', AList.update module (VEntry (Failed e module)) results, completedModules))"

text \<open>\<open>r && !r.error\<close>: a string or number is truthy unless empty or zero and has no \<open>error\<close>.\<close>

fun usable :: "jsvalue \<Rightarrow> bool" where
  "usable (VString s) = (s \<noteq> [])"
| "usable (VNumber n) = (n \<noteq> 0)"
| "usable (VEntry e) = (case entry_error e of None \<Rightarrow> True | Some m \<Rightarrow> m = [])"

definition msg_empty :: jsstring where
  "msg_empty = str ''Text cannot be empty''"

definition msg_too_long :: jsstring where
  "msg_too_long = str ''Text is too long. Please use texts under 50,000 characters.''"

definition requested_modules :: "options \<Rightarrow> jsstring list" where
  "requested_modules opts = (case modules opts of None \<Rightarrow> default_modules | Some ms \<Rightarrow> ms)"

definition initial_results :: "environment \<Rightarrow> jsstring \<Rightarrow> report" where
  "initial_results env text =
     [(str ''text'', VString text),
      (str ''wordCount'', VNumber (int (countWords text))),
      (str ''charCount'', VNumber (int (length text))),
      (str ''analysisDate'', VString (isoNow env)),
      (str ''processingTime'', VNumber 0)]"

definition analyzeText ::
  "environment \<Rightarrow> engine \<Rightarrow> jsstring \<Rightarrow> options \<Rightarrow> (jsstring + report) \<times> engine" where
  "analyzeText env w text opts =
     (if text = [] \<or> trim text = [] then (Inl msg_empty, w)
      else if length text > 50000 then (Inl msg_too_long, w)
      else
        (case generateCacheKey text (requested_modules opts) of
           (cacheKey, modules1) \<Rightarrow>
             (case cache w cacheKey of
                Some cached \<Rightarrow> (Inr cached, w)
              | None \<Rightarrow>
                  (case modules_loop env text (onProgress opts) (length modules1) modules1
                          (w, initial_results env text, 0) of
                     (w', results', completedModules) \<Rightarrow>
                       (let results'' = AList.update (str ''processingTime'')
                                          (VNumber (elapsed env)) results'
                        in (Inr results'',
                            if list_ex usable (map snd results'')
                            then w'\<lparr>cache := (cache w')(cacheKey \<mapsto> results'')\<rparr>
                            else w'))))))"

text \<open>
  The outcome of each module's \<open>runModuleAnalysis\<close>, in the order the loop runs them,
  each call starting from the engine the previous one left: \<open>Inl\<close> the message of
  the error thrown, \<open>Inr\<close> the entry returned. \<open>entry_of\<close> is what the loop stores for
  an outcome, and \<open>successes\<close> the modules whose call returned.
\<close>

fun outcomes ::
  "environment \<Rightarrow> jsstring \<Rightarrow> jsstring list \<Rightarrow> engine \<Rightarrow> (jsstring \<times> (jsstring + entry)) list" where
  "outcomes env text [] w = []"
| "outcomes env text (module # rest) w =
     (case runModuleAnalysis env w text module of
        (r, w') \<Rightarrow> (module, r) # outcomes env text rest w')"

definition entry_of :: "jsstring \<Rightarrow> jsstring + entry \<Rightarrow> entry" where
  "entry_of module r = (case r of Inl e \<Rightarrow> Failed e module | Inr data \<Rightarrow> data)"

definition successes :: "(jsstring \<times> (jsstring + entry)) list \<Rightarrow> jsstring list" where
  "successes os = map fst (filter (\<lambda>(module, r). \<not> isl r) os)"

text \<open>What the loop writes into the results for a module's outcome.\<close>

definition store :: "report \<Rightarrow> jsstring \<times> (jsstring + entry) \<Rightarrow> report" where
  "store results mo = AList.update (fst mo) (VEntry (entry_of (fst mo) (snd mo))) results"

text \<open>
  A bullet line, for stating what the word list holds: some indentation, the marker,
  and the rest of the line. \<open>bullet_item\<close> is the rest cut at its first comma or
  semicolon and trimmed.
\<close>

type_synonym bullet = "jsstring \<times> nat \<times> jsstring"

definition bullet_line :: "bullet \<Rightarrow> jsstring" where
  "bullet_line b = (case b of (indent, marker, rest) \<Rightarrow> indent @ marker # rest)"

definition bullet_item :: "bullet \<Rightarrow> jsstring" where
  "bullet_item b = (case b of (indent, marker, rest) \<Rightarrow> trim (firstToken rest))"

definition dash_or_dot_bullet :: "bullet \<Rightarrow> bool" where
  "dash_or_dot_bullet b =
     (case b of (indent, marker, rest) \<Rightarrow>
        (\<forall>c \<in> set indent. isSpace c \<and> c \<noteq> 10) \<and> (marker = 45 \<or> marker = 8226) \<and> 10 \<notin> set rest)"

text \<open>The bullet line as \<open>extractSections\<close> stores it: trimmed.\<close>

definition bullet_trimmed :: "bullet \<Rightarrow> jsstring" where
  "bullet_trimmed b = (case b of (indent, marker, rest) \<Rightarrow> marker # trimEnd rest)"

definition names_academic :: "jsstring \<times> jsstring \<Rightarrow> bool" where
  "names_academic kv = str_includes (fst kv) (str ''academic'')"

section \<open>Sample inputs\<close>

text \<open>
  Short templates, and an object that inherits \<open>constructor\<close>, \<open>toString\<close> and
  \<open>__proto__\<close> with the texts V8 gives them.
\<close>

definition sample_prompts :: AnalysisPrompts where
  "sample_prompts = \<lparr>vocabularyPrompt = str ''V'', grammarPrompt = str ''G'',
     structurePrompt = str ''S'', contentPrompt = str ''C'', complexityPrompt = str ''X'',
     inherited = map_of
       [(str ''constructor'', str ''function Object() { [native code] }''),
        (str ''toString'', str ''function toString() { [native code] }''),
        (str ''__proto__'', str ''[object Object]'')]\<rparr>"

definition fresh_engine :: engine where
  "fresh_engine = \<lparr>sent = [], reported = [], retryAttempts = 3, prompts = sample_prompts,
     cache = Map.empty\<rparr>"

text \<open>An endpoint that always completes with the given text, and one that always answers 403.\<close>

definition answering :: "jsstring \<Rightarrow> endpoint" where
  "answering t = (\<lambda>i p. Response 200 (str ''OK'')
     (Json \<lparr>errorMessage = None,
            firstCandidate = Some \<lparr>finishReason = Some (str ''STOP''),
                                   partText = Some (Some t)\<rparr>\<rparr>))"

definition denying :: endpoint where
  "denying = (\<lambda>i p. Response 403 (str ''Forbidden'') (BadJson []))"

definition sample_env :: "endpoint \<Rightarrow> environment" where
  "sample_env ep = \<lparr>endpoint = ep, isoNow = str ''2024-01-01T00:00:00.000Z'', elapsed = 5\<rparr>"

section \<open>Properties of the client\<close>

lemma rate_limit_not_retry_class:
  "\<not> str_includes msg_rate_limit (str ''fetch'')"
  "\<not> str_includes msg_rate_limit (str ''network'')"
  "\<not> str_includes msg_rate_limit (str ''API key'')"
  "\<not> str_includes msg_rate_limit (str ''Invalid request'')"
  "\<not> str_includes msg_rate_limit (str ''safety concerns'')"
  by code_simp+

lemma safety_class:
  "\<not> str_includes msg_safety (str ''fetch'')"
  "\<not> str_includes msg_safety (str ''network'')"
  "str_includes msg_safety (str ''safety concerns'')"
  by code_simp+

lemma catch_block_rate_limit:
  "catch_block n n msg_rate_limit = Break"
  by (simp add: catch_block_def rate_limit_not_retry_class)

lemma catch_block_safety:
  "catch_block n a msg_safety = Rethrow"
  by (simp add: catch_block_def safety_class)

lemma try_body_429:
  "try_body n a (Response 429 st b) = (if a < n then Continued else Thrown msg_rate_limit)"
  by (simp add: try_body_def response_ok_def)

lemma attempts_all_429:
  assumes ep: "\<And>i p. \<exists>st b. ep i p = Response 429 st b"
  shows "1 \<le> a \<Longrightarrow> a \<le> n \<Longrightarrow> k = n - a \<Longrightarrow>
         attempts ep n prompt a l w =
           (Inl (msg_after_retries n msg_rate_limit),
            w\<lparr>sent := sent w @ replicate (n + 1 - a) prompt\<rparr>)"
proof (induction k arbitrary: a l w)
  case 0
  then have an: "a = n" by simp
  obtain st b where r: "ep (length (sent w)) prompt = Response 429 st b"
    using ep by blast
  show ?case
    unfolding an
    by (subst attempts.simps) (simp add: r try_body_429 catch_block_rate_limit)
next
  case (Suc k)
  then have lt: "a < n" and k: "k = n - (a + 1)" by simp_all
  obtain st b where r: "ep (length (sent w)) prompt = Response 429 st b"
    using ep by blast
  have step: "attempts ep n prompt a l w =
      attempts ep n prompt (a + 1) l (w\<lparr>sent := sent w @ [prompt]\<rparr>)"
    using lt by (subst attempts.simps) (simp add: r try_body_429)
  have "attempts ep n prompt (a + 1) l (w\<lparr>sent := sent w @ [prompt]\<rparr>) =
      (Inl (msg_after_retries n msg_rate_limit),
       w\<lparr>sent := (sent w @ [prompt]) @ replicate (n + 1 - (a + 1)) prompt\<rparr>)"
    using Suc.IH [of "a + 1" l "w\<lparr>sent := sent w @ [prompt]\<rparr>"] lt k by simp
  moreover have "[prompt] @ replicate (n + 1 - (a + 1)) prompt = replicate (n + 1 - a) prompt"
    using lt
    by (metis Suc_diff_le Suc_eq_plus1 append_Cons append_Nil less_imp_le_nat replicate_Suc
        diff_Suc_Suc)
  ultimately show ?case using step by simp
qed

text \<open>
  C3. Against an endpoint that answers every request with status 429, the client call
  fails with the rate-limit error, wrapped in the terminal error of the retry loop,
  after exactly \<open>maxAttempts\<close> requests (the client's \<open>retryAttempts\<close>, 3 in the source), all carrying the prompt.
\<close>

theorem always_throttled_exactly_maxAttempts:
  assumes "1 \<le> maxAttempts"
    and "\<forall>i p. \<exists>statusText b. ep i p = Response 429 statusText b"
  shows "generateContent ep maxAttempts prompt w =
           (Inl (msg_after_retries maxAttempts msg_rate_limit),
            w\<lparr>sent := sent w @ replicate maxAttempts prompt\<rparr>)"
  using attempts_all_429 [of ep 1 maxAttempts "maxAttempts - 1" prompt None w] assms
  by (simp add: generateContent_def)

theorem always_throttled_witness:
  "generateContent (\<lambda>i p. Response 429 (str ''Too Many Requests'') (BadJson [])) 3 (str ''p'')
       \<lparr>sent = [], reported = []\<rparr> =
     (Inl (str ''Analysis failed after 3 attempts: Rate limit exceeded. Please try again later.''),
      \<lparr>sent = [str ''p'', str ''p'', str ''p''], reported = []\<rparr>)"
proof -
  have m: "msg_after_retries 3 msg_rate_limit =
      str ''Analysis failed after 3 attempts: Rate limit exceeded. Please try again later.''"
    by code_simp
  have r: "replicate 3 (str ''p'') = [str ''p'', str ''p'', str ''p'']"
    by (simp add: numeral_3_eq_3)
  show ?thesis
    using always_throttled_exactly_maxAttempts
      [of 3 "\<lambda>i p. Response 429 (str ''Too Many Requests'') (BadJson [])" "str ''p''" "\<lparr>sent = [], reported = []\<rparr>"]
    by (simp add: m r)
qed

lemma try_body_safety:
  "response_ok status \<Longrightarrow> firstCandidate d = Some c \<Longrightarrow> finishReason c = Some (str ''SAFETY'')
     \<Longrightarrow> try_body n a (Response status st (Json d)) = Thrown msg_safety"
  by (simp add: try_body_def)

lemma attempts_safety:
  assumes "attempt \<le> maxAttempts"
    and "ep (length (sent w)) prompt = Response status statusText (Json d)"
    and "response_ok status"
    and "firstCandidate d = Some c"
    and "finishReason c = Some (str ''SAFETY'')"
  shows "attempts ep maxAttempts prompt attempt lastError w =
           (Inl msg_safety, w\<lparr>sent := sent w @ [prompt]\<rparr>)"
  using assms
  by (subst attempts.simps) (simp add: try_body_safety catch_block_safety)

text \<open>
  C4. A response with an ok status whose first candidate has \<open>finishReason = SAFETY\<close>
  makes the client call fail at once with the safety error: one request is issued and
  none follows, however many attempts are configured.
\<close>

theorem safety_block_not_retried:
  assumes "1 \<le> maxAttempts"
    and "ep (length (sent w)) prompt = Response status statusText (Json d)"
    and "response_ok status"
    and "firstCandidate d = Some c"
    and "finishReason c = Some (str ''SAFETY'')"
  shows "generateContent ep maxAttempts prompt w =
           (Inl msg_safety, w\<lparr>sent := sent w @ [prompt]\<rparr>)"
  unfolding generateContent_def using assms by (rule attempts_safety)

theorem safety_block_witness:
  "generateContent
     (\<lambda>i p. Response 200 (str ''OK'')
        (Json \<lparr>errorMessage = None,
               firstCandidate = Some \<lparr>finishReason = Some (str ''SAFETY''), partText = Some (Some (str ''x''))\<rparr>\<rparr>))
     3 (str ''p'') \<lparr>sent = [], reported = []\<rparr> =
   (Inl (str ''Content was blocked due to safety concerns. Please try with different text.''),
    \<lparr>sent = [str ''p''], reported = []\<rparr>)"
  using safety_block_not_retried
    [of 3 "\<lambda>i p. Response 200 (str ''OK'')
        (Json \<lparr>errorMessage = None,
               firstCandidate = Some \<lparr>finishReason = Some (str ''SAFETY''), partText = Some (Some (str ''x''))\<rparr>\<rparr>)"
        "\<lparr>sent = [], reported = []\<rparr>" "str ''p''" 200 "str ''OK''" _ "\<lparr>finishReason = Some (str ''SAFETY''), partText = Some (Some (str ''x''))\<rparr>"]
  by (simp add: response_ok_def msg_safety_def)


section \<open>Frame properties of the retry loop\<close>

lemma attempts_frame:
  "attempts ep n p a l w = (r, w') \<Longrightarrow>
     \<exists>k. w' = w\<lparr>sent := sent w @ replicate k p\<rparr> \<and> (a \<le> n \<longrightarrow> 1 \<le> k)"
proof (induction ep n p a l w arbitrary: r w' rule: attempts.induct)
  case (1 ep n p a l w)
  let ?w1 = "w\<lparr>sent := sent w @ [p]\<rparr>"
  have ext: "\<And>k. ?w1\<lparr>sent := sent ?w1 @ replicate k p\<rparr> = w\<lparr>sent := sent w @ replicate (Suc k) p\<rparr>"
    by simp
  show ?case
  proof (cases "a \<le> n")
    case False
    with "1.prems" have "w' = w"
      by (subst (asm) attempts.simps) (auto split: option.splits)
    then show ?thesis using False by (intro exI [of _ 0]) simp
  next
    case True
    note le = this
    show ?thesis
    proof (cases "try_body n a (ep (length (sent w)) p)")
      case (Returned t)
      with "1.prems" le have "w' = ?w1"
        by (subst (asm) attempts.simps) (simp add: Let_def)
      then show ?thesis by (intro exI [of _ 1]) simp
    next
      case Continued
      with "1.prems" le have "attempts ep n p (a + 1) l ?w1 = (r, w')"
        by (subst (asm) attempts.simps) (simp add: Let_def)
      from "1.IH"(1) [OF le refl refl Continued this]
      obtain k where "w' = ?w1\<lparr>sent := sent ?w1 @ replicate k p\<rparr>" by blast
      then have "w' = w\<lparr>sent := sent w @ replicate (Suc k) p\<rparr>" by simp
      then show ?thesis by (intro exI [of _ "Suc k"]) simp
    next
      case (Thrown m)
      show ?thesis
      proof (cases "catch_block n a m")
        case Retry
        with "1.prems" le Thrown have "attempts ep n p (a + 1) (Some m) ?w1 = (r, w')"
          by (subst (asm) attempts.simps) (simp add: Let_def)
        from "1.IH"(2) [OF le refl refl Thrown Retry this]
        obtain k where "w' = ?w1\<lparr>sent := sent ?w1 @ replicate k p\<rparr>" by blast
        then have "w' = w\<lparr>sent := sent w @ replicate (Suc k) p\<rparr>" by simp
        then show ?thesis by (intro exI [of _ "Suc k"]) simp
      next
        case Rethrow
        with "1.prems" le Thrown have "w' = ?w1"
          by (subst (asm) attempts.simps) (simp add: Let_def)
        then show ?thesis by (intro exI [of _ 1]) simp
      next
        case Break
        with "1.prems" le Thrown have "w' = ?w1"
          by (subst (asm) attempts.simps) (simp add: Let_def)
        then show ?thesis by (intro exI [of _ 1]) simp
      qed
    qed
  qed
qed

lemma attempts_reported:
  "attempts ep n p a l (w\<lparr>reported := x\<rparr>) =
     (case attempts ep n p a l w of (r, w') \<Rightarrow> (r, w'\<lparr>reported := x\<rparr>))"
proof (induction ep n p a l w rule: attempts.induct)
  case (1 ep n p a l w)
  note unfold = attempts.simps [of ep n p a l w] attempts.simps [of ep n p a l "w\<lparr>reported := x\<rparr>"]
  have comm: "w\<lparr>reported := x, sent := sent w @ [p]\<rparr> = w\<lparr>sent := sent w @ [p], reported := x\<rparr>"
    by (cases w) simp
  show ?case
  proof (cases "a \<le> n")
    case False
    then show ?thesis
      by (simp add: unfold split: option.splits)
  next
    case True
    note le = this
    show ?thesis
    proof (cases "try_body n a (ep (length (sent w)) p)")
      case (Returned t)
      then show ?thesis using le
        by (simp add: unfold Let_def)
    next
      case Continued
      from "1.IH"(1) [OF le refl refl Continued] Continued le show ?thesis
        by (simp add: unfold Let_def comm)
    next
      case (Thrown m)
      show ?thesis
      proof (cases "catch_block n a m")
        case Retry
        from "1.IH"(2) [OF le refl refl Thrown Retry] Thrown Retry le show ?thesis
          by (simp add: unfold Let_def comm)
      next
        case Rethrow
        with Thrown le show ?thesis
          by (simp add: unfold Let_def)
      next
        case Break
        with Thrown le show ?thesis
          by (simp add: unfold Let_def)
      qed
    qed
  qed
qed

lemma runModuleAnalysis_frame:
  assumes "runModuleAnalysis env w text m = (r, w')"
  shows "\<exists>k. w' = w\<lparr>sent := sent w @ replicate k (getPrompt (prompts w) m text)\<rparr>
            \<and> (1 \<le> retryAttempts w \<longrightarrow> 1 \<le> k)"
proof -
  obtain r0 w0 where g: "generateContent (endpoint env) (retryAttempts w)
      (getPrompt (prompts w) m text) w = (r0, w0)"
    by (cases "generateContent (endpoint env) (retryAttempts w) (getPrompt (prompts w) m text) w")
  with assms have "w' = w0"
    by (auto simp: runModuleAnalysis_def Let_def split: sum.splits)
  moreover from g attempts_frame [of "endpoint env" "retryAttempts w" _ 1 None w r0 w0]
  have "\<exists>k. w0 = w\<lparr>sent := sent w @ replicate k (getPrompt (prompts w) m text)\<rparr>
            \<and> (1 \<le> retryAttempts w \<longrightarrow> 1 \<le> k)"
    by (simp add: generateContent_def)
  ultimately show ?thesis by simp
qed

lemma runModuleAnalysis_reported:
  "runModuleAnalysis env (w\<lparr>reported := x\<rparr>) text m =
     (case runModuleAnalysis env w text m of (r, w') \<Rightarrow> (r, w'\<lparr>reported := x\<rparr>))"
  by (simp add: runModuleAnalysis_def generateContent_def attempts_reported Let_def
      split: prod.splits sum.splits)

lemma outcomes_reported:
  "outcomes env text ms (w\<lparr>reported := x\<rparr>) = outcomes env text ms w"
  by (induction ms arbitrary: w) (simp_all add: runModuleAnalysis_reported split: prod.splits)

section \<open>The loop over the modules\<close>

lemma modules_loop_Cons:
  assumes "runModuleAnalysis env w text m = (r, w1)"
  shows "modules_loop env text pr tot (m # rest) (w, res, c) =
     modules_loop env text pr tot rest
       (if pr \<and> \<not> isl r
        then w1\<lparr>reported := reported w1 @ [(c + 1, tot, msg_completed m)]\<rparr> else w1,
        store res (m, r),
        if isl r then c else c + 1)"
  using assms by (cases r) (simp_all add: store_def entry_of_def)

lemma modules_loop_results:
  "modules_loop env text pr tot ms (w, res, c) = (w', res', c') \<Longrightarrow>
     res' = foldl store res (outcomes env text ms w)"
proof (induction ms arbitrary: w res c)
  case Nil
  then show ?case by simp
next
  case (Cons m rest)
  obtain r w1 where run: "runModuleAnalysis env w text m = (r, w1)"
    by (cases "runModuleAnalysis env w text m")
  let ?w2 = "if pr \<and> \<not> isl r
        then w1\<lparr>reported := reported w1 @ [(c + 1, tot, msg_completed m)]\<rparr> else w1"
  from Cons.prems have "modules_loop env text pr tot rest
       (?w2, store res (m, r), if isl r then c else c + 1) = (w', res', c')"
    by (simp only: modules_loop_Cons [OF run])
  from Cons.IH [OF this]
  have "res' = foldl store (store res (m, r)) (outcomes env text rest ?w2)" .
  moreover have "outcomes env text rest ?w2 = outcomes env text rest w1"
    by (simp add: outcomes_reported)
  ultimately show ?case by (simp add: run)
qed

lemma modules_loop_reported:
  "modules_loop env text pr tot ms (w, res, c) = (w', res', c') \<Longrightarrow>
     reported w' = reported w @
       (if pr then map (\<lambda>(i, m). (Suc i, tot, msg_completed m))
                     (enumerate c (successes (outcomes env text ms w)))
        else [])"
proof (induction ms arbitrary: w res c)
  case Nil
  then show ?case by (simp add: successes_def)
next
  case (Cons m rest)
  obtain r w1 where run: "runModuleAnalysis env w text m = (r, w1)"
    by (cases "runModuleAnalysis env w text m")
  from runModuleAnalysis_frame [OF run] have rep1: "reported w1 = reported w"
    by auto
  let ?w2 = "if pr \<and> \<not> isl r
        then w1\<lparr>reported := reported w1 @ [(c + 1, tot, msg_completed m)]\<rparr> else w1"
  let ?c2 = "if isl r then c else c + 1"
  from Cons.prems have "modules_loop env text pr tot rest
       (?w2, store res (m, r), ?c2) = (w', res', c')"
    by (simp only: modules_loop_Cons [OF run])
  from Cons.IH [OF this]
  have "reported w' = reported ?w2 @
       (if pr then map (\<lambda>(i, m). (Suc i, tot, msg_completed m))
                     (enumerate ?c2 (successes (outcomes env text rest ?w2)))
        else [])" .
  moreover have "outcomes env text rest ?w2 = outcomes env text rest w1"
    by (simp add: outcomes_reported)
  ultimately have IH: "reported w' = reported ?w2 @
       (if pr then map (\<lambda>(i, m). (Suc i, tot, msg_completed m))
                     (enumerate ?c2 (successes (outcomes env text rest w1)))
        else [])"
    by (simp only:)
  have os: "successes (outcomes env text (m # rest) w) =
      (if isl r then successes (outcomes env text rest w1)
       else m # successes (outcomes env text rest w1))"
    by (simp add: run successes_def)
  show ?case
  proof (cases "isl r")
    case True
    with IH show ?thesis by (simp add: os rep1 del: outcomes.simps)
  next
    case False
    with IH show ?thesis by (cases pr) (simp_all add: os rep1 del: outcomes.simps)
  qed
qed

lemma modules_loop_frame:
  "modules_loop env text pr tot ms (w, res, c) = (w', res', c') \<Longrightarrow>
     retryAttempts w' = retryAttempts w \<and> prompts w' = prompts w \<and> cache w' = cache w \<and>
     (\<exists>extra. sent w' = sent w @ extra \<and> (ms = [] \<longrightarrow> extra = []) \<and>
        (1 \<le> retryAttempts w \<longrightarrow> (\<forall>m \<in> set ms. getPrompt (prompts w) m text \<in> set extra)))"
proof (induction ms arbitrary: w res c)
  case Nil
  then show ?case by simp
next
  case (Cons m rest)
  obtain r w1 where run: "runModuleAnalysis env w text m = (r, w1)"
    by (cases "runModuleAnalysis env w text m")
  from runModuleAnalysis_frame [OF run] obtain k where
    w1: "w1 = w\<lparr>sent := sent w @ replicate k (getPrompt (prompts w) m text)\<rparr>"
    and k: "1 \<le> retryAttempts w \<longrightarrow> 1 \<le> k"
    by blast
  let ?w2 = "if pr \<and> \<not> isl r
        then w1\<lparr>reported := reported w1 @ [(c + 1, tot, msg_completed m)]\<rparr> else w1"
  have w2: "retryAttempts ?w2 = retryAttempts w" "prompts ?w2 = prompts w" "cache ?w2 = cache w"
    "sent ?w2 = sent w @ replicate k (getPrompt (prompts w) m text)"
    by (simp_all add: w1)
  from Cons.prems have "modules_loop env text pr tot rest
       (?w2, store res (m, r), if isl r then c else c + 1) = (w', res', c')"
    by (simp only: modules_loop_Cons [OF run])
  from Cons.IH [OF this] obtain extra where
    f: "retryAttempts w' = retryAttempts ?w2" "prompts w' = prompts ?w2" "cache w' = cache ?w2"
    and e: "sent w' = sent ?w2 @ extra"
    and p: "1 \<le> retryAttempts ?w2 \<longrightarrow> (\<forall>m \<in> set rest. getPrompt (prompts ?w2) m text \<in> set extra)"
    by blast
  have here: "1 \<le> retryAttempts w \<longrightarrow>
      getPrompt (prompts w) m text \<in> set (replicate k (getPrompt (prompts w) m text))"
    using k by auto
  let ?extra = "replicate k (getPrompt (prompts w) m text) @ extra"
  have "sent w' = sent w @ ?extra"
    using e by (simp add: w2)
  moreover have "m # rest = [] \<longrightarrow> ?extra = []" by simp
  moreover have "1 \<le> retryAttempts w \<longrightarrow>
      (\<forall>x \<in> set (m # rest). getPrompt (prompts w) x text \<in> set ?extra)"
    using p here by (auto simp: w2)
  ultimately show ?case
    using f by (simp only: w2) blast
qed

section \<open>analyzeText, case by case\<close>

lemma trim_Nil: "trim [] = []"
  by (simp add: trim_def trimStart_def trimEnd_def)

lemma generateCacheKey_snd: "snd (generateCacheKey text ms) = sort ms"
  by (simp add: generateCacheKey_def Let_def)

lemma generateCacheKey_perm:
  assumes "mset ms1 = mset ms2"
  shows "generateCacheKey text ms1 = generateCacheKey text ms2"
proof -
  have "sort ms1 = sort ms2"
    using assms by (intro properties_for_sort) simp_all
  then show ?thesis by (simp add: generateCacheKey_def)
qed

lemma analyzeText_invalid:
  "trim text = [] \<Longrightarrow> analyzeText env w text opts = (Inl msg_empty, w)"
  "trim text \<noteq> [] \<Longrightarrow> 50000 < length text \<Longrightarrow> analyzeText env w text opts = (Inl msg_too_long, w)"
  by (auto simp: analyzeText_def trim_Nil)

lemma analyzeText_hit:
  assumes "trim text \<noteq> []" "length text \<le> 50000"
    and "cache w (fst (generateCacheKey text (requested_modules opts))) = Some cached"
  shows "analyzeText env w text opts = (Inr cached, w)"
  using assms by (auto simp: analyzeText_def trim_Nil split: prod.splits)

lemma analyzeText_miss:
  assumes "trim text \<noteq> []" "length text \<le> 50000"
    and "cache w (fst (generateCacheKey text (requested_modules opts))) = None"
    and "modules_loop env text (onProgress opts) (length (sort (requested_modules opts)))
           (sort (requested_modules opts)) (w, initial_results env text, 0) = (w', res', c')"
  shows "analyzeText env w text opts =
     (Inr (AList.update (str ''processingTime'') (VNumber (elapsed env)) res'),
      if list_ex usable (map snd (AList.update (str ''processingTime'') (VNumber (elapsed env)) res'))
      then w'\<lparr>cache := (cache w')(fst (generateCacheKey text (requested_modules opts)) \<mapsto>
              AList.update (str ''processingTime'') (VNumber (elapsed env)) res')\<rparr>
      else w')"
proof -
  obtain key ms1 where g: "generateCacheKey text (requested_modules opts) = (key, ms1)"
    by (cases "generateCacheKey text (requested_modules opts)")
  then have ms1: "ms1 = sort (requested_modules opts)"
    using generateCacheKey_snd [of "text" "requested_modules opts"] by simp
  from assms(1) have ne: "text \<noteq> []" by (auto simp: trim_Nil)
  show ?thesis
    using assms ne by (simp add: analyzeText_def g ms1 Let_def)
qed

lemma foldl_store_other:
  "k \<notin> fst ` set os \<Longrightarrow> map_of (foldl store res os) k = map_of res k"
  by (induction os arbitrary: res) (auto simp: store_def update_conv')

lemma foldl_store_entry:
  "distinct (map fst os) \<Longrightarrow> (m, r) \<in> set os \<Longrightarrow>
     map_of (foldl store res os) m = Some (VEntry (entry_of m r))"
proof (induction os arbitrary: res)
  case Nil
  then show ?case by simp
next
  case (Cons x os)
  show ?case
  proof (cases "(m, r) = x")
    case True
    with Cons.prems have "m \<notin> fst ` set os" by force
    then have "map_of (foldl store (store res x) os) m = map_of (store res x) m"
      by (rule foldl_store_other)
    moreover have "map_of (store res (m, r)) m = Some (VEntry (entry_of m r))"
      by (simp add: store_def update_conv')
    ultimately show ?thesis using True by simp
  next
    case False
    with Cons.prems have "(m, r) \<in> set os" "distinct (map fst os)" by auto
    from Cons.IH [OF this(2) this(1)] show ?thesis by simp
  qed
qed

lemma outcomes_keys: "map fst (outcomes env text ms w) = ms"
  by (induction ms arbitrary: w) (auto split: prod.splits)

lemma str_text_neq: "str ''text'' \<noteq> str ''processingTime''"
  by (simp add: str_def)

lemma usable_in_report:
  assumes "map_of rep k = Some v" "usable v"
  shows "list_ex usable (map snd rep)"
proof -
  from assms(1) have "(k, v) \<in> set rep" by (rule map_of_SomeD)
  then have "v \<in> set (map snd rep)" by force
  with assms(2) show ?thesis by (auto simp: list_ex_iff)
qed

section \<open>Sample endpoints\<close>

lemmas char_class_defs = isSpace_def isDigit_def isUpperAZ_def isLowerAZ_def
lemmas trim_defs = trim_def trimStart_def trimEnd_def

lemma hi_valid: "trim (str ''hi'') \<noteq> []" "length (str ''hi'') \<le> 50000"
  by (simp_all add: str_def trim_defs isSpace_def)

lemma api_key_class:
  "\<not> str_includes msg_api_key (str ''fetch'')"
  "\<not> str_includes msg_api_key (str ''network'')"
  "str_includes msg_api_key (str ''API key'')"
  by code_simp+

lemma attempts_403:
  assumes "a \<le> n" and "ep (length (sent w)) p = Response 403 st b"
  shows "attempts ep n p a l w = (Inl msg_api_key, w\<lparr>sent := sent w @ [p]\<rparr>)"
  using assms
  by (subst attempts.simps)
     (simp add: try_body_def response_ok_def catch_block_def api_key_class)

lemma attempts_answer:
  assumes "a \<le> n"
    and "ep (length (sent w)) p = Response 200 st
           (Json \<lparr>errorMessage = e, firstCandidate = Some \<lparr>finishReason = Some fr, partText = Some t\<rparr>\<rparr>)"
    and "fr \<noteq> str ''SAFETY''"
  shows "attempts ep n p a l w = (Inr t, w\<lparr>sent := sent w @ [p]\<rparr>)"
  using assms
  by (subst attempts.simps) (simp add: try_body_def response_ok_def)

lemma stop_not_safety: "str ''STOP'' \<noteq> str ''SAFETY''"
  by (simp add: str_def)

lemma runModuleAnalysis_denying:
  "1 \<le> retryAttempts w \<Longrightarrow>
     runModuleAnalysis (sample_env denying) w text m =
       (Inl msg_api_key, w\<lparr>sent := sent w @ [getPrompt (prompts w) m text]\<rparr>)"
  by (simp add: runModuleAnalysis_def generateContent_def sample_env_def denying_def
      attempts_403 [where st = "str ''Forbidden''" and b = "BadJson []"])

lemma runModuleAnalysis_answering:
  "1 \<le> retryAttempts w \<Longrightarrow>
     runModuleAnalysis (sample_env (answering t)) w text m =
       (Inr (processModuleResponse m (Some t) text),
        w\<lparr>sent := sent w @ [getPrompt (prompts w) m text]\<rparr>)"
  by (simp add: runModuleAnalysis_def generateContent_def sample_env_def answering_def
      attempts_answer [where st = "str ''OK''" and e = None and fr = "str ''STOP''"]
      stop_not_safety)

lemma outcomes_denying:
  "1 \<le> retryAttempts w \<Longrightarrow>
     outcomes (sample_env denying) text ms w = map (\<lambda>m. (m, Inl msg_api_key)) ms"
  by (induction ms arbitrary: w) (simp_all add: runModuleAnalysis_denying)

lemma outcomes_answering:
  "1 \<le> retryAttempts w \<Longrightarrow>
     outcomes (sample_env (answering t)) text ms w =
       map (\<lambda>m. (m, Inr (processModuleResponse m (Some t) text))) ms"
  by (induction ms arbitrary: w) (simp_all add: runModuleAnalysis_answering)

lemma modules_loop_answering_sent:
  "1 \<le> retryAttempts w \<Longrightarrow>
   modules_loop (sample_env (answering t)) text pr tot ms (w, res, c) = (w', res', c') \<Longrightarrow>
     sent w' = sent w @ map (\<lambda>m. getPrompt (prompts w) m text) ms"
proof (induction ms arbitrary: w res c)
  case Nil
  then show ?case by simp
next
  case (Cons m rest)
  let ?w1 = "w\<lparr>sent := sent w @ [getPrompt (prompts w) m text]\<rparr>"
  let ?w2 = "if pr then ?w1\<lparr>reported := reported ?w1 @ [(c + 1, tot, msg_completed m)]\<rparr> else ?w1"
  from Cons.prems have "modules_loop (sample_env (answering t)) text pr tot rest
      (?w2, AList.update m (VEntry (processModuleResponse m (Some t) text)) res, c + 1) = (w', res', c')"
    by (simp add: runModuleAnalysis_answering)
  moreover have "1 \<le> retryAttempts ?w2" using Cons.prems(1) by simp
  ultimately have "sent w' = sent ?w2 @ map (\<lambda>m. getPrompt (prompts ?w2) m text) rest"
    by (rule Cons.IH [rotated])
  then show ?case by simp
qed

text \<open>What a call that passes validation amounts to.\<close>

lemma analyzeText_valid_cases:
  assumes "trim text \<noteq> []" "length text \<le> 50000"
  obtains (hit) cached where
      "cache w (fst (generateCacheKey text (requested_modules opts))) = Some cached"
      "analyzeText env w text opts = (Inr cached, w)"
  | (miss) w' res' c' where
      "cache w (fst (generateCacheKey text (requested_modules opts))) = None"
      "modules_loop env text (onProgress opts) (length (sort (requested_modules opts)))
           (sort (requested_modules opts)) (w, initial_results env text, 0) = (w', res', c')"
      "fst (analyzeText env w text opts) =
         Inr (AList.update (str ''processingTime'') (VNumber (elapsed env)) res')"
      "snd (analyzeText env w text opts) = w' \<or>
       snd (analyzeText env w text opts) =
         w'\<lparr>cache := (cache w')(fst (generateCacheKey text (requested_modules opts)) \<mapsto>
              AList.update (str ''processingTime'') (VNumber (elapsed env)) res')\<rparr>"
      "list_ex usable (map snd (AList.update (str ''processingTime'') (VNumber (elapsed env)) res'))
         \<Longrightarrow> snd (analyzeText env w text opts) =
         w'\<lparr>cache := (cache w')(fst (generateCacheKey text (requested_modules opts)) \<mapsto>
              AList.update (str ''processingTime'') (VNumber (elapsed env)) res')\<rparr>"
proof (cases "cache w (fst (generateCacheKey text (requested_modules opts)))")
  case (Some cached)
  with assms show ?thesis by (intro hit) (simp_all add: analyzeText_hit)
next
  case None
  obtain w' res' c' where loop:
    "modules_loop env text (onProgress opts) (length (sort (requested_modules opts)))
           (sort (requested_modules opts)) (w, initial_results env text, 0) = (w', res', c')"
    by (metis prod_cases3)
  note eq = analyzeText_miss [OF assms None loop]
  show ?thesis
    by (rule miss [OF None loop]) (simp_all add: eq)
qed

lemma analyzeText_returns:
  assumes "trim text \<noteq> []" "length text \<le> 50000"
  shows "\<exists>report. fst (analyzeText env w text opts) = Inr report"
  using assms by (rule analyzeText_valid_cases [where w = w and opts = opts and env = env]) auto

lemma sort_Nil_iff: "sort xs = [] \<longleftrightarrow> xs = []"
  by (metis length_sort length_0_conv)

lemma analyzeText_sent:
  assumes "trim text \<noteq> []" "length text \<le> 50000"
    and "cache w (fst (generateCacheKey text (requested_modules opts))) = None"
  shows "\<exists>extra. sent (snd (analyzeText env w text opts)) = sent w @ extra \<and>
           (requested_modules opts = [] \<longrightarrow> extra = []) \<and>
           (1 \<le> retryAttempts w \<longrightarrow>
              (\<forall>m \<in> set (requested_modules opts). getPrompt (prompts w) m text \<in> set extra))"
  using assms(1,2)
proof (cases rule: analyzeText_valid_cases [where w = w and opts = opts and env = env])
  case (hit cached)
  with assms(3) show ?thesis by simp
next
  case (miss w' res' c')
  from miss(4) have s: "sent (snd (analyzeText env w text opts)) = sent w'" by auto
  from modules_loop_frame [OF miss(2)] show ?thesis
    unfolding s by (auto simp: sort_Nil_iff)
qed

section \<open>Validation\<close>

text \<open>
  C1. A text that is blank after trimming, and a text of more than 50,000 code units,
  make \<open>analyzeText\<close> throw one of its two validation errors and leave the engine as
  it was: no request has been added to the log and the cache is untouched.
\<close>

theorem invalid_text_rejected_before_any_call:
  assumes "trim text = [] \<or> 50000 < length text"
  shows "analyzeText env w text opts \<in> {(Inl msg_empty, w), (Inl msg_too_long, w)}"
  using assms analyzeText_invalid [of "text" env w opts] by auto

theorem invalid_text_witness:
  "isl (fst (analyzeText (sample_env (answering (str ''ok''))) fresh_engine (str ''   '')
             \<lparr>modules = None, onProgress = True\<rparr>)) \<and>
   sent (snd (analyzeText (sample_env (answering (str ''ok''))) fresh_engine (str ''   '')
             \<lparr>modules = None, onProgress = True\<rparr>)) = [] \<and>
   isl (fst (analyzeText (sample_env (answering (str ''ok''))) fresh_engine (replicate 50001 97)
             \<lparr>modules = None, onProgress = True\<rparr>)) \<and>
   sent (snd (analyzeText (sample_env (answering (str ''ok''))) fresh_engine (replicate 50001 97)
             \<lparr>modules = None, onProgress = True\<rparr>)) = []"
proof -
  have blank: "trim (str ''   '') = []"
    by (simp add: str_def trim_defs isSpace_def)
  have long: "50000 < length (replicate 50001 (97::nat))"
    by simp
  have s: "sent fresh_engine = []"
    by (simp add: fresh_engine_def)
  from invalid_text_rejected_before_any_call [of "str ''   ''" "sample_env (answering (str ''ok''))"
      fresh_engine "\<lparr>modules = None, onProgress = True\<rparr>"] blank
  have 1: "analyzeText (sample_env (answering (str ''ok''))) fresh_engine (str ''   '')
             \<lparr>modules = None, onProgress = True\<rparr>
           \<in> {(Inl msg_empty, fresh_engine), (Inl msg_too_long, fresh_engine)}"
    by blast
  from invalid_text_rejected_before_any_call [of "replicate 50001 97"
      "sample_env (answering (str ''ok''))" fresh_engine "\<lparr>modules = None, onProgress = True\<rparr>"] long
  have 2: "analyzeText (sample_env (answering (str ''ok''))) fresh_engine (replicate 50001 97)
             \<lparr>modules = None, onProgress = True\<rparr>
           \<in> {(Inl msg_empty, fresh_engine), (Inl msg_too_long, fresh_engine)}"
    by blast
  from 1 2 s show ?thesis by auto
qed

lemma getPrompt_fallback:
  "m \<notin> set default_modules \<Longrightarrow> inherited P m = None \<Longrightarrow>
     getPrompt P m text = getPrompt P (str ''vocabulary'') text"
  by (simp add: getPrompt_def prompts_lookup_def default_modules_def)

lemma getPrompt_inherited:
  "m \<notin> set default_modules \<Longrightarrow> inherited P m = Some s \<Longrightarrow>
     getPrompt P m text = promptWith s text"
  by (simp add: getPrompt_def prompts_lookup_def default_modules_def)

lemma fresh_engine_simps:
  "sent fresh_engine = []" "reported fresh_engine = []" "retryAttempts fresh_engine = 3"
  "prompts fresh_engine = sample_prompts" "cache fresh_engine k = None"
  by (simp_all add: fresh_engine_def)

lemma poetry_unknown:
  "str ''poetry'' \<notin> set default_modules"
  "inherited sample_prompts (str ''poetry'') = None"
  by (simp_all add: default_modules_def sample_prompts_def str_def)

lemma constructor_inherited:
  "str ''constructor'' \<notin> set default_modules"
  "inherited sample_prompts (str ''constructor'') = Some (str ''function Object() { [native code] }'')"
  by (simp_all add: default_modules_def sample_prompts_def str_def)

text \<open>
  C8, as stated, fails: the source checks the text only. With a valid text, an empty
  list of modules returns a report, and so does a name outside the five, for which a
  request goes out.
\<close>

theorem categories_unchecked_counterexample:
  "\<not> isl (fst (analyzeText (sample_env (answering (str ''ok''))) fresh_engine (str ''hi'')
               \<lparr>modules = Some [], onProgress = False\<rparr>)) \<and>
   \<not> isl (fst (analyzeText (sample_env (answering (str ''ok''))) fresh_engine (str ''hi'')
               \<lparr>modules = Some [str ''poetry''], onProgress = False\<rparr>)) \<and>
   sent (snd (analyzeText (sample_env (answering (str ''ok''))) fresh_engine (str ''hi'')
               \<lparr>modules = Some [str ''poetry''], onProgress = False\<rparr>)) \<noteq> []"
proof -
  let ?env = "sample_env (answering (str ''ok''))"
  let ?o1 = "\<lparr>modules = Some [], onProgress = False\<rparr>"
  let ?o2 = "\<lparr>modules = Some [str ''poetry''], onProgress = False\<rparr>"
  from analyzeText_returns [OF hi_valid, of ?env fresh_engine ?o1]
  have 1: "\<not> isl (fst (analyzeText ?env fresh_engine (str ''hi'') ?o1))" by auto
  from analyzeText_returns [OF hi_valid, of ?env fresh_engine ?o2]
  have 2: "\<not> isl (fst (analyzeText ?env fresh_engine (str ''hi'') ?o2))" by auto
  from analyzeText_sent [OF hi_valid, of fresh_engine ?o2 ?env]
  have 3: "sent (snd (analyzeText ?env fresh_engine (str ''hi'') ?o2)) \<noteq> []"
    by (auto simp: fresh_engine_simps requested_modules_def)
  from 1 2 3 show ?thesis by blast
qed

text \<open>
  C8, amended. \<open>analyzeText\<close> validates the text only. For a valid text it returns a
  report whatever the modules are, and an empty list issues no request. When the
  report is not cached (and at least one attempt is configured), every listed name has
  its prompt sent, inside the five or not. A name outside the five that the prompts
  object does not inherit from \<open>Object.prototype\<close> is sent with the vocabulary
  template; a name it does inherit (such as \<open>constructor\<close>) is sent with the text of
  the inherited value in the template's place.
\<close>

theorem categories_are_not_validated:
  assumes "trim text \<noteq> []" and "length text \<le> 50000"
  shows "(\<exists>report. fst (analyzeText env w text opts) = Inr report) \<and>
         (requested_modules opts = [] \<longrightarrow> sent (snd (analyzeText env w text opts)) = sent w) \<and>
         (cache w (fst (generateCacheKey text (requested_modules opts))) = None \<and>
          1 \<le> retryAttempts w \<longrightarrow>
            (\<forall>m \<in> set (requested_modules opts).
                getPrompt (prompts w) m text
                  \<in> set (drop (length (sent w)) (sent (snd (analyzeText env w text opts)))) \<and>
                (m \<notin> set default_modules \<and> inherited (prompts w) m = None \<longrightarrow>
                   getPrompt (prompts w) m text =
                   getPrompt (prompts w) (str ''vocabulary'') text) \<and>
                (\<forall>s. m \<notin> set default_modules \<and> inherited (prompts w) m = Some s \<longrightarrow>
                   getPrompt (prompts w) m text = promptWith s text)))"
proof (intro conjI impI)
  show "\<exists>report. fst (analyzeText env w text opts) = Inr report"
    using assms by (rule analyzeText_returns)
next
  assume none: "requested_modules opts = []"
  show "sent (snd (analyzeText env w text opts)) = sent w"
  proof (cases "cache w (fst (generateCacheKey text (requested_modules opts)))")
    case None
    from analyzeText_sent [OF assms None, of env] none show ?thesis by auto
  next
    case (Some cached)
    from analyzeText_hit [OF assms Some, of env] show ?thesis by simp
  qed
next
  assume "cache w (fst (generateCacheKey text (requested_modules opts))) = None \<and>
          1 \<le> retryAttempts w"
  with analyzeText_sent [OF assms, of w opts env]
  have "\<forall>m \<in> set (requested_modules opts).
                getPrompt (prompts w) m text
                  \<in> set (drop (length (sent w)) (sent (snd (analyzeText env w text opts))))"
    by auto
  then show "\<forall>m \<in> set (requested_modules opts).
                getPrompt (prompts w) m text
                  \<in> set (drop (length (sent w)) (sent (snd (analyzeText env w text opts)))) \<and>
                (m \<notin> set default_modules \<and> inherited (prompts w) m = None \<longrightarrow>
                   getPrompt (prompts w) m text =
                   getPrompt (prompts w) (str ''vocabulary'') text) \<and>
                (\<forall>s. m \<notin> set default_modules \<and> inherited (prompts w) m = Some s \<longrightarrow>
                   getPrompt (prompts w) m text = promptWith s text)"
    using getPrompt_fallback getPrompt_inherited by blast
qed

theorem categories_are_not_validated_witness:
  "(\<exists>report. fst (analyzeText (sample_env (answering (str ''ok''))) fresh_engine (str ''hi'')
               \<lparr>modules = Some [str ''poetry''], onProgress = False\<rparr>) = Inr report) \<and>
   getPrompt sample_prompts (str ''vocabulary'') (str ''hi'')
     \<in> set (sent (snd (analyzeText (sample_env (answering (str ''ok''))) fresh_engine (str ''hi'')
               \<lparr>modules = Some [str ''poetry''], onProgress = False\<rparr>))) \<and>
   promptWith (str ''function Object() { [native code] }'') (str ''hi'')
     \<in> set (sent (snd (analyzeText (sample_env (answering (str ''ok''))) fresh_engine (str ''hi'')
               \<lparr>modules = Some [str ''constructor''], onProgress = False\<rparr>)))"
proof -
  let ?env = "sample_env (answering (str ''ok''))"
  let ?o1 = "\<lparr>modules = Some [str ''poetry''], onProgress = False\<rparr>"
  let ?o2 = "\<lparr>modules = Some [str ''constructor''], onProgress = False\<rparr>"
  from categories_are_not_validated [OF hi_valid, of ?env fresh_engine ?o1] poetry_unknown
  have 1: "(\<exists>report. fst (analyzeText ?env fresh_engine (str ''hi'') ?o1) = Inr report) \<and>
      getPrompt sample_prompts (str ''vocabulary'') (str ''hi'')
        \<in> set (sent (snd (analyzeText ?env fresh_engine (str ''hi'') ?o1)))"
    by (auto simp: fresh_engine_simps requested_modules_def)
  from categories_are_not_validated [OF hi_valid, of ?env fresh_engine ?o2] constructor_inherited
  have 2: "promptWith (str ''function Object() { [native code] }'') (str ''hi'')
        \<in> set (sent (snd (analyzeText ?env fresh_engine (str ''hi'') ?o2)))"
    by (auto simp: fresh_engine_simps requested_modules_def)
  from 1 2 show ?thesis by blast
qed

section \<open>Failures of single categories\<close>

lemma processingTime_not_default: "str ''processingTime'' \<notin> set default_modules"
  by (simp add: default_modules_def str_def)

lemma analyzeText_entries:
  assumes "trim text \<noteq> []" and "length text \<le> 50000"
    and "cache w (fst (generateCacheKey text (requested_modules opts))) = None"
    and "distinct (requested_modules opts)"
    and "str ''processingTime'' \<notin> set (requested_modules opts)"
  shows "\<exists>report. fst (analyzeText env w text opts) = Inr report \<and>
           (\<forall>(m, r) \<in> set (outcomes env text (sort (requested_modules opts)) w).
               map_of report m = Some (VEntry (entry_of m r)))"
  using assms(1,2)
proof (cases rule: analyzeText_valid_cases [where w = w and opts = opts and env = env])
  case (hit cached)
  with assms(3) show ?thesis by simp
next
  case (miss w' res' c')
  let ?os = "outcomes env text (sort (requested_modules opts)) w"
  let ?report = "AList.update (str ''processingTime'') (VNumber (elapsed env)) res'"
  have res': "res' = foldl store (initial_results env text) ?os"
    using miss(2) by (rule modules_loop_results)
  have d: "distinct (map fst ?os)"
    using assms(4) by (simp add: outcomes_keys)
  have "map_of ?report m = Some (VEntry (entry_of m r))" if mr: "(m, r) \<in> set ?os" for m r
  proof -
    from mr have "m \<in> set (map fst ?os)" by force
    then have "m \<in> set (requested_modules opts)" by (simp add: outcomes_keys)
    with assms(5) have "m \<noteq> str ''processingTime''" by auto
    then have "map_of ?report m = map_of res' m" by (simp add: update_conv')
    also have "\<dots> = Some (VEntry (entry_of m r))"
      unfolding res' using d mr by (rule foldl_store_entry)
    finally show ?thesis .
  qed
  with miss(3) show ?thesis by auto
qed

text \<open>
  C2. Take a valid text whose report is not cached and distinct modules (none called
  \<open>processingTime\<close>, the field written after the loop; the five categories qualify).
  Whatever each module's processing does, \<open>analyzeText\<close> returns a report; a module
  whose processing threw has the entry holding that error's message, a module whose
  processing returned has the entry returned; every module has an outcome, and a
  request with its prompt was issued for every one of them.
\<close>

theorem category_failure_is_recorded_and_local:
  assumes "trim text \<noteq> []" and "length text \<le> 50000"
    and "cache w (fst (generateCacheKey text (requested_modules opts))) = None"
    and "distinct (requested_modules opts)"
    and "str ''processingTime'' \<notin> set (requested_modules opts)"
    and "1 \<le> retryAttempts w"
  shows "\<exists>report. fst (analyzeText env w text opts) = Inr report \<and>
      (\<forall>m e. (m, Inl e) \<in> set (outcomes env text (snd (generateCacheKey text (requested_modules opts))) w)
          \<longrightarrow> map_of report m = Some (VEntry (Failed e m))) \<and>
      (\<forall>m d. (m, Inr d) \<in> set (outcomes env text (snd (generateCacheKey text (requested_modules opts))) w)
          \<longrightarrow> map_of report m = Some (VEntry d)) \<and>
      fst ` set (outcomes env text (snd (generateCacheKey text (requested_modules opts))) w)
        = set (requested_modules opts) \<and>
      (\<forall>m \<in> set (requested_modules opts).
          getPrompt (prompts w) m text
            \<in> set (drop (length (sent w)) (sent (snd (analyzeText env w text opts)))))"
proof -
  let ?os = "outcomes env text (sort (requested_modules opts)) w"
  from analyzeText_entries [OF assms(1-5), of env] obtain report where
    r: "fst (analyzeText env w text opts) = Inr report"
    and e: "\<And>m r. (m, r) \<in> set ?os \<Longrightarrow> map_of report m = Some (VEntry (entry_of m r))"
    by blast
  have keys: "fst ` set ?os = set (requested_modules opts)"
    using outcomes_keys [of env "text" "sort (requested_modules opts)" w]
    by (metis set_map set_sort)
  from analyzeText_sent [OF assms(1-3), of env] assms(6)
  have s: "\<forall>m \<in> set (requested_modules opts).
      getPrompt (prompts w) m text
        \<in> set (drop (length (sent w)) (sent (snd (analyzeText env w text opts))))"
    by auto
  show ?thesis
    unfolding generateCacheKey_snd
    using r e [of _ "Inl _"] e [of _ "Inr _"] keys s
    by (auto simp: entry_of_def)
qed

lemma two_modules:
  "distinct [str ''grammar'', str ''vocabulary'']"
  "str ''processingTime'' \<notin> set [str ''grammar'', str ''vocabulary'']"
  "str ''text'' \<notin> set [str ''grammar'', str ''vocabulary'']"
  "sort [str ''grammar'', str ''vocabulary''] = [str ''grammar'', str ''vocabulary'']"
  by (simp_all add: str_def)

theorem category_failure_witness:
  "map_of (projr (fst (analyzeText (sample_env denying) fresh_engine (str ''hi'')
        \<lparr>modules = Some [str ''grammar'', str ''vocabulary''], onProgress = False\<rparr>)))
      (str ''grammar'') = Some (VEntry (Failed msg_api_key (str ''grammar''))) \<and>
   map_of (projr (fst (analyzeText (sample_env denying) fresh_engine (str ''hi'')
        \<lparr>modules = Some [str ''grammar'', str ''vocabulary''], onProgress = False\<rparr>)))
      (str ''vocabulary'') = Some (VEntry (Failed msg_api_key (str ''vocabulary''))) \<and>
   getPrompt sample_prompts (str ''vocabulary'') (str ''hi'')
     \<in> set (sent (snd (analyzeText (sample_env denying) fresh_engine (str ''hi'')
        \<lparr>modules = Some [str ''grammar'', str ''vocabulary''], onProgress = False\<rparr>)))"
proof -
  let ?opts = "\<lparr>modules = Some [str ''grammar'', str ''vocabulary''], onProgress = False\<rparr>"
  let ?run = "analyzeText (sample_env denying) fresh_engine (str ''hi'') ?opts"
  have m: "requested_modules ?opts = [str ''grammar'', str ''vocabulary'']"
    by (simp add: requested_modules_def)
  have c: "cache fresh_engine (fst (generateCacheKey (str ''hi'') (requested_modules ?opts))) = None"
    by (simp add: fresh_engine_simps)
  have d: "distinct (requested_modules ?opts)"
    and p: "str ''processingTime'' \<notin> set (requested_modules ?opts)"
    unfolding m by (rule two_modules)+
  have a: "1 \<le> retryAttempts fresh_engine"
    by (simp add: fresh_engine_simps)
  have os: "outcomes (sample_env denying) (str ''hi'')
      (snd (generateCacheKey (str ''hi'') (requested_modules ?opts))) fresh_engine =
      [(str ''grammar'', Inl msg_api_key), (str ''vocabulary'', Inl msg_api_key)]"
    unfolding generateCacheKey_snd m two_modules(4)
    by (simp only: outcomes_denying [OF a] list.map)
  from category_failure_is_recorded_and_local [OF hi_valid c d p a, of "sample_env denying"]
  obtain report where r: "fst ?run = Inr report"
    and f: "\<forall>m e. (m, Inl e) \<in> set (outcomes (sample_env denying) (str ''hi'')
               (snd (generateCacheKey (str ''hi'') (requested_modules ?opts))) fresh_engine)
          \<longrightarrow> map_of report m = Some (VEntry (Failed e m))"
    and s: "\<forall>m \<in> set (requested_modules ?opts).
          getPrompt (prompts fresh_engine) m (str ''hi'')
            \<in> set (drop (length (sent fresh_engine)) (sent (snd ?run)))"
    by blast
  from f have "map_of report (str ''grammar'') = Some (VEntry (Failed msg_api_key (str ''grammar'')))"
    and "map_of report (str ''vocabulary'') = Some (VEntry (Failed msg_api_key (str ''vocabulary'')))"
    unfolding os by simp_all
  moreover from s have "getPrompt sample_prompts (str ''vocabulary'') (str ''hi'') \<in> set (sent (snd ?run))"
    by (simp add: m fresh_engine_simps)
  ultimately show ?thesis by (simp add: r)
qed

section \<open>Progress and processing order\<close>

lemma analyzeText_reported:
  assumes "trim text \<noteq> []" and "length text \<le> 50000"
    and "cache w (fst (generateCacheKey text (requested_modules opts))) = None"
  shows "reported (snd (analyzeText env w text opts)) =
     reported w @
       (if onProgress opts
        then map (\<lambda>(i, m). (Suc i, length (requested_modules opts), msg_completed m))
               (enumerate 0 (successes
                  (outcomes env text (snd (generateCacheKey text (requested_modules opts))) w)))
        else [])"
  using assms(1,2)
proof (cases rule: analyzeText_valid_cases [where w = w and opts = opts and env = env])
  case (hit cached)
  with assms(3) show ?thesis by simp
next
  case (miss w' res' c')
  from miss(4) have "reported (snd (analyzeText env w text opts)) = reported w'" by auto
  with modules_loop_reported [OF miss(2)] show ?thesis
    by (simp add: generateCacheKey_snd)
qed

lemma one_module:
  "sort [str ''vocabulary''] = [str ''vocabulary'']"
  by simp

text \<open>
  C7, as stated, fails for a category that fails: the callback is called in the \<open>try\<close>
  block only, after the module's analysis has returned. Here the callback is supplied,
  the one requested category resolves by failing, the report is returned, and the
  callback has not been invoked.
\<close>

theorem progress_on_failure_counterexample:
  "\<not> isl (fst (analyzeText (sample_env denying) fresh_engine (str ''hi'')
               \<lparr>modules = Some [str ''vocabulary''], onProgress = True\<rparr>)) \<and>
   reported (snd (analyzeText (sample_env denying) fresh_engine (str ''hi'')
               \<lparr>modules = Some [str ''vocabulary''], onProgress = True\<rparr>)) = []"
proof -
  let ?opts = "\<lparr>modules = Some [str ''vocabulary''], onProgress = True\<rparr>"
  have m: "requested_modules ?opts = [str ''vocabulary'']"
    by (simp add: requested_modules_def)
  have c: "cache fresh_engine (fst (generateCacheKey (str ''hi'') (requested_modules ?opts))) = None"
    by (simp add: fresh_engine_simps)
  have a: "1 \<le> retryAttempts fresh_engine"
    by (simp add: fresh_engine_simps)
  have os: "successes (outcomes (sample_env denying) (str ''hi'')
      (snd (generateCacheKey (str ''hi'') (requested_modules ?opts))) fresh_engine) = []"
    unfolding generateCacheKey_snd m one_module
    by (simp only: outcomes_denying [OF a]) (simp add: successes_def)
  from analyzeText_returns [OF hi_valid, of "sample_env denying" fresh_engine ?opts]
  have "\<not> isl (fst (analyzeText (sample_env denying) fresh_engine (str ''hi'') ?opts))"
    by auto
  moreover from analyzeText_reported [OF hi_valid c, of "sample_env denying"]
  have "reported (snd (analyzeText (sample_env denying) fresh_engine (str ''hi'') ?opts)) = []"
    unfolding os by (simp add: fresh_engine_simps)
  ultimately show ?thesis by blast
qed

text \<open>
  C7, amended. For a valid text whose report is not cached and a supplied callback,
  the callback is invoked once after each module whose analysis returned, and not for
  a module whose analysis threw. The invocations come in the order the loop ran those
  modules; the \<open>k\<close>-th carries the completed count \<open>k\<close> out of the number of
  requested modules (the percentage \<open>k / total * 100\<close>) and the message naming the
  module. So the percentage rises strictly, and it reaches 100 exactly when every
  module succeeded.
\<close>

theorem progress_reported_after_each_success:
  assumes "trim text \<noteq> []" and "length text \<le> 50000"
    and "cache w (fst (generateCacheKey text (requested_modules opts))) = None"
    and "onProgress opts"
  shows "reported (snd (analyzeText env w text opts)) =
     reported w @
       map (\<lambda>(i, m). (Suc i, length (requested_modules opts), msg_completed m))
         (enumerate 0 (successes
            (outcomes env text (snd (generateCacheKey text (requested_modules opts))) w)))"
  using analyzeText_reported [OF assms(1-3), of env] assms(4) by simp

theorem progress_reported_witness:
  "reported (snd (analyzeText (sample_env (answering (str ''ok''))) fresh_engine (str ''hi'')
               \<lparr>modules = Some [str ''grammar'', str ''vocabulary''], onProgress = True\<rparr>)) =
     [(1, 2, msg_completed (str ''grammar'')), (2, 2, msg_completed (str ''vocabulary''))]"
proof -
  let ?opts = "\<lparr>modules = Some [str ''grammar'', str ''vocabulary''], onProgress = True\<rparr>"
  let ?env = "sample_env (answering (str ''ok''))"
  have m: "requested_modules ?opts = [str ''grammar'', str ''vocabulary'']"
    by (simp add: requested_modules_def)
  have c: "cache fresh_engine (fst (generateCacheKey (str ''hi'') (requested_modules ?opts))) = None"
    by (simp add: fresh_engine_simps)
  have a: "1 \<le> retryAttempts fresh_engine"
    by (simp add: fresh_engine_simps)
  have os: "successes (outcomes ?env (str ''hi'')
      (snd (generateCacheKey (str ''hi'') (requested_modules ?opts))) fresh_engine) =
      [str ''grammar'', str ''vocabulary'']"
    unfolding generateCacheKey_snd m two_modules(4)
    by (simp only: outcomes_answering [OF a]) (simp add: successes_def)
  have p: "onProgress ?opts" by simp
  from progress_reported_after_each_success [OF hi_valid c p, of ?env]
  show ?thesis
    unfolding os by (simp add: fresh_engine_simps m enumerate_simps)
qed

lemma analyzeText_sent_answering:
  assumes "trim text \<noteq> []" and "length text \<le> 50000"
    and "cache w (fst (generateCacheKey text (requested_modules opts))) = None"
    and "1 \<le> retryAttempts w"
  shows "sent (snd (analyzeText (sample_env (answering t)) w text opts)) =
     sent w @ map (\<lambda>m. getPrompt (prompts w) m text) (sort (requested_modules opts))"
  using assms(1,2)
proof (cases rule: analyzeText_valid_cases
    [where w = w and opts = opts and env = "sample_env (answering t)"])
  case (hit cached)
  with assms(3) show ?thesis by simp
next
  case (miss w' res' c')
  from miss(4) have "sent (snd (analyzeText (sample_env (answering t)) w text opts)) = sent w'"
    by auto
  with modules_loop_answering_sent [OF assms(4) miss(2)] show ?thesis by simp
qed

lemma sort_default_modules:
  "sort default_modules =
     [str ''complexity'', str ''content'', str ''grammar'', str ''structure'', str ''vocabulary'']"
  by (simp add: default_modules_def str_def)

text \<open>
  C6. The code does not keep the caller's order. \<open>generateCacheKey\<close> sorts the
  caller's array in place before the loop reads it, so the modules are processed in
  code-unit order of their names. With the five categories supplied in the order
  vocabulary, grammar, structure, content, complexity (the order of the default list
  and of the page's check boxes) and an endpoint that answers every request, the
  requests go out for complexity, content, grammar, structure, vocabulary.
\<close>

theorem modules_processed_in_sorted_order:
  "sent (snd (analyzeText (sample_env (answering (str ''ok''))) fresh_engine (str ''hi'')
            \<lparr>modules = Some [str ''vocabulary'', str ''grammar'', str ''structure'',
                              str ''content'', str ''complexity''],
             onProgress = False\<rparr>)) =
     map (\<lambda>m. getPrompt sample_prompts m (str ''hi''))
       [str ''complexity'', str ''content'', str ''grammar'', str ''structure'', str ''vocabulary'']"
proof -
  let ?opts = "\<lparr>modules = Some [str ''vocabulary'', str ''grammar'', str ''structure'',
                              str ''content'', str ''complexity''], onProgress = False\<rparr>"
  have m: "requested_modules ?opts = default_modules"
    by (simp add: requested_modules_def default_modules_def)
  have c: "cache fresh_engine (fst (generateCacheKey (str ''hi'') (requested_modules ?opts))) = None"
    by (simp add: fresh_engine_simps)
  have a: "1 \<le> retryAttempts fresh_engine"
    by (simp add: fresh_engine_simps)
  show ?thesis
    unfolding analyzeText_sent_answering [OF hi_valid c a] m sort_default_modules
    by (simp add: fresh_engine_simps)
qed

section \<open>The cache\<close>

lemma analyzeText_caches:
  assumes "trim text \<noteq> []" and "length text \<le> 50000"
    and "str ''text'' \<notin> set (requested_modules opts)"
  shows "\<exists>report. fst (analyzeText env w text opts) = Inr report \<and>
           cache (snd (analyzeText env w text opts))
             (fst (generateCacheKey text (requested_modules opts))) = Some report \<and>
           (cache w (fst (generateCacheKey text (requested_modules opts))) = None \<longrightarrow>
              map_of report (str ''text'') = Some (VString text) \<and>
              list_ex usable (map snd report))"
  using assms(1,2)
proof (cases rule: analyzeText_valid_cases [where w = w and opts = opts and env = env])
  case (hit cached)
  then show ?thesis by simp
next
  case (miss w' res' c')
  let ?os = "outcomes env text (sort (requested_modules opts)) w"
  let ?report = "AList.update (str ''processingTime'') (VNumber (elapsed env)) res'"
  have res': "res' = foldl store (initial_results env text) ?os"
    using miss(2) by (rule modules_loop_results)
  have "str ''text'' \<notin> fst ` set ?os"
    using assms(3) outcomes_keys [of env "text" "sort (requested_modules opts)" w]
    by (metis set_map set_sort)
  then have "map_of res' (str ''text'') = map_of (initial_results env text) (str ''text'')"
    unfolding res' by (rule foldl_store_other)
  then have t: "map_of ?report (str ''text'') = Some (VString text)"
    using str_text_neq by (simp add: update_conv' initial_results_def)
  from assms(1) have "usable (VString text)" by (auto simp: trim_Nil)
  with t have guard: "list_ex usable (map snd ?report)" by (rule usable_in_report)
  from miss(5) [OF guard]
  have "cache (snd (analyzeText env w text opts))
      (fst (generateCacheKey text (requested_modules opts))) = Some ?report"
    by simp
  with miss(3) t guard show ?thesis by simp
qed

lemma analyzeText_again:
  assumes "trim text \<noteq> []" and "length text \<le> 50000"
    and "str ''text'' \<notin> set (requested_modules opts)"
    and "mset (requested_modules opts') = mset (requested_modules opts)"
  shows "\<exists>report. fst (analyzeText env w text opts) = Inr report \<and>
           analyzeText env' (snd (analyzeText env w text opts)) text opts' =
             (Inr report, snd (analyzeText env w text opts))"
proof -
  from analyzeText_caches [OF assms(1-3), of env w] obtain report where
    r: "fst (analyzeText env w text opts) = Inr report"
    and c: "cache (snd (analyzeText env w text opts))
             (fst (generateCacheKey text (requested_modules opts))) = Some report"
    by blast
  from assms(4) have "generateCacheKey text (requested_modules opts') =
      generateCacheKey text (requested_modules opts)"
    by (rule generateCacheKey_perm)
  with c have "cache (snd (analyzeText env w text opts))
             (fst (generateCacheKey text (requested_modules opts'))) = Some report"
    by simp
  from analyzeText_hit [OF assms(1,2) this] r show ?thesis by blast
qed

text \<open>
  C5. The cache key is the same for two module lists that are permutations of each
  other. And for a valid text (with no module called \<open>text\<close>, the field that keeps the
  report cacheable; the five categories qualify), a second call with the same text and
  the same modules, in any order, returns the report the first call returned and leaves
  the engine as the first call left it: no further request is issued, whatever the
  endpoint would have answered.
\<close>

theorem cache_key_ignores_order_and_second_call_is_cached:
  "(mset ms1 = mset ms2 \<longrightarrow>
      fst (generateCacheKey t ms1) = fst (generateCacheKey t ms2)) \<and>
   (trim text \<noteq> [] \<and> length text \<le> 50000 \<and>
    str ''text'' \<notin> set (requested_modules opts) \<and>
    mset (requested_modules opts') = mset (requested_modules opts) \<longrightarrow>
      (\<exists>report. fst (analyzeText env w text opts) = Inr report \<and>
         analyzeText env' (snd (analyzeText env w text opts)) text opts' =
           (Inr report, snd (analyzeText env w text opts))))"
  using generateCacheKey_perm [of ms1 ms2 t] analyzeText_again [of "text" opts opts' env w env']
  by simp

theorem cache_key_witness:
  "fst (generateCacheKey (str ''hi'') [str ''vocabulary'', str ''grammar'']) =
     fst (generateCacheKey (str ''hi'') [str ''grammar'', str ''vocabulary'']) \<and>
   (\<exists>report.
      fst (analyzeText (sample_env (answering (str ''ok''))) fresh_engine (str ''hi'')
             \<lparr>modules = Some [str ''grammar'', str ''vocabulary''], onProgress = False\<rparr>) =
        Inr report \<and>
      analyzeText (sample_env denying)
          (snd (analyzeText (sample_env (answering (str ''ok''))) fresh_engine (str ''hi'')
             \<lparr>modules = Some [str ''grammar'', str ''vocabulary''], onProgress = False\<rparr>))
          (str ''hi'') \<lparr>modules = Some [str ''vocabulary'', str ''grammar''], onProgress = True\<rparr> =
        (Inr report,
         snd (analyzeText (sample_env (answering (str ''ok''))) fresh_engine (str ''hi'')
             \<lparr>modules = Some [str ''grammar'', str ''vocabulary''], onProgress = False\<rparr>)))"
proof -
  let ?o1 = "\<lparr>modules = Some [str ''grammar'', str ''vocabulary''], onProgress = False\<rparr>"
  let ?o2 = "\<lparr>modules = Some [str ''vocabulary'', str ''grammar''], onProgress = True\<rparr>"
  have t: "str ''text'' \<notin> set (requested_modules ?o1)"
    by (simp add: requested_modules_def two_modules(3) str_def)
  have p: "mset (requested_modules ?o2) = mset (requested_modules ?o1)"
    by (simp add: requested_modules_def)
  have q: "mset [str ''vocabulary'', str ''grammar''] = mset [str ''grammar'', str ''vocabulary'']"
    by simp
  from cache_key_ignores_order_and_second_call_is_cached
    [of "[str ''vocabulary'', str ''grammar'']" "[str ''grammar'', str ''vocabulary'']" "str ''hi''"
        "str ''hi''" ?o1 ?o2 "sample_env (answering (str ''ok''))" fresh_engine "sample_env denying"]
    hi_valid t p q
  show ?thesis by blast
qed

text \<open>
  C10. A call with a valid text (and no module called \<open>text\<close>; the five categories
  qualify) returns a report that is in the cache under its key afterwards. When the
  report was computed by this call, its \<open>text\<close> field is still the non-empty input
  text, which has no \<open>error\<close>, so the guard before \<open>cache.set\<close> holds whether or not
  any module succeeded. A later identical call returns that report and leaves the
  engine unchanged, whatever the endpoint would answer.
\<close>

theorem degraded_report_is_cached:
  assumes "trim text \<noteq> []" and "length text \<le> 50000"
    and "str ''text'' \<notin> set (requested_modules opts)"
  shows "\<exists>report. fst (analyzeText env w text opts) = Inr report \<and>
           cache (snd (analyzeText env w text opts))
             (fst (generateCacheKey text (requested_modules opts))) = Some report \<and>
           (cache w (fst (generateCacheKey text (requested_modules opts))) = None \<longrightarrow>
              map_of report (str ''text'') = Some (VString text) \<and>
              list_ex usable (map snd report)) \<and>
           analyzeText env' (snd (analyzeText env w text opts)) text opts =
             (Inr report, snd (analyzeText env w text opts))"
  using analyzeText_caches [OF assms, of env w] analyzeText_again [OF assms refl, of env w env']
  by auto

theorem degraded_report_witness:
  "\<exists>report.
     fst (analyzeText (sample_env denying) fresh_engine (str ''hi'')
            \<lparr>modules = Some [str ''grammar'', str ''vocabulary''], onProgress = False\<rparr>) =
       Inr report \<and>
     map_of report (str ''grammar'') = Some (VEntry (Failed msg_api_key (str ''grammar''))) \<and>
     map_of report (str ''vocabulary'') = Some (VEntry (Failed msg_api_key (str ''vocabulary''))) \<and>
     cache (snd (analyzeText (sample_env denying) fresh_engine (str ''hi'')
            \<lparr>modules = Some [str ''grammar'', str ''vocabulary''], onProgress = False\<rparr>))
       (fst (generateCacheKey (str ''hi'') [str ''grammar'', str ''vocabulary''])) = Some report \<and>
     analyzeText (sample_env (answering (str ''ok'')))
         (snd (analyzeText (sample_env denying) fresh_engine (str ''hi'')
            \<lparr>modules = Some [str ''grammar'', str ''vocabulary''], onProgress = False\<rparr>))
         (str ''hi'') \<lparr>modules = Some [str ''grammar'', str ''vocabulary''], onProgress = False\<rparr> =
       (Inr report,
        snd (analyzeText (sample_env denying) fresh_engine (str ''hi'')
            \<lparr>modules = Some [str ''grammar'', str ''vocabulary''], onProgress = False\<rparr>))"
proof -
  let ?o = "\<lparr>modules = Some [str ''grammar'', str ''vocabulary''], onProgress = False\<rparr>"
  let ?run = "analyzeText (sample_env denying) fresh_engine (str ''hi'') ?o"
  have m: "requested_modules ?o = [str ''grammar'', str ''vocabulary'']"
    by (simp add: requested_modules_def)
  have t: "str ''text'' \<notin> set (requested_modules ?o)"
    unfolding m by (rule two_modules)
  have c: "cache fresh_engine (fst (generateCacheKey (str ''hi'') (requested_modules ?o))) = None"
    by (simp add: fresh_engine_simps)
  have d: "distinct (requested_modules ?o)"
    and p: "str ''processingTime'' \<notin> set (requested_modules ?o)"
    unfolding m by (rule two_modules)+
  have a: "1 \<le> retryAttempts fresh_engine"
    by (simp add: fresh_engine_simps)
  have os: "outcomes (sample_env denying) (str ''hi'') (sort (requested_modules ?o)) fresh_engine =
      [(str ''grammar'', Inl msg_api_key), (str ''vocabulary'', Inl msg_api_key)]"
    unfolding m two_modules(4)
    by (simp only: outcomes_denying [OF a] list.map)
  from degraded_report_is_cached [OF hi_valid t, of "sample_env denying" fresh_engine
      "sample_env (answering (str ''ok''))"]
  obtain report where r: "fst ?run = Inr report"
    and k: "cache (snd ?run) (fst (generateCacheKey (str ''hi'') (requested_modules ?o))) = Some report"
    and again: "analyzeText (sample_env (answering (str ''ok''))) (snd ?run) (str ''hi'') ?o =
       (Inr report, snd ?run)"
    by blast
  from analyzeText_entries [OF hi_valid c d p, of "sample_env denying"] r
  have e: "\<forall>(m, x) \<in> set [(str ''grammar'', Inl msg_api_key), (str ''vocabulary'', Inl msg_api_key)].
      map_of report m = Some (VEntry (entry_of m x))"
    unfolding os by simp
  then have "map_of report (str ''grammar'') = Some (VEntry (Failed msg_api_key (str ''grammar'')))"
    and "map_of report (str ''vocabulary'') = Some (VEntry (Failed msg_api_key (str ''vocabulary'')))"
    by (simp_all add: entry_of_def)
  with r k again show ?thesis
    unfolding m by blast
qed

section \<open>The academic vocabulary list\<close>

lemma trimEnd_Cons:
  "trimEnd (c # cs) = (if isSpace c \<and> trimEnd cs = [] then [] else c # trimEnd cs)"
  by (auto simp: trimEnd_def dropWhile_append)

lemma trimEnd_Nil: "trimEnd [] = []"
  by (simp add: trimEnd_def)

lemma trimEnd_idem: "trimEnd (trimEnd s) = trimEnd s"
  by (simp add: trimEnd_def)

lemma trimEnd_dropWhile: "dropWhile isSpace (trimEnd s) = trimEnd (dropWhile isSpace s)"
  by (induction s) (auto simp: trimEnd_Cons trimEnd_Nil)

lemma trim_idem: "trim (trim s) = trim s"
  by (simp add: trim_def trimStart_def trimEnd_dropWhile [symmetric] trimEnd_idem)

lemma not_space_marker: "\<not> isSpace 45" "\<not> isSpace 8226" "\<not> isSpace 44" "\<not> isSpace 59"
  by (simp_all add: isSpace_def)

lemma firstToken_dropWhile:
  "firstToken (dropWhile isSpace s) = dropWhile isSpace (firstToken s)"
  by (induction s) (auto simp: firstToken_def not_space_marker)

lemma trimEnd_firstToken: "trimEnd (firstToken (trimEnd s)) = trimEnd (firstToken s)"
proof (induction s)
  case Nil
  show ?case by (simp add: trimEnd_Nil)
next
  case (Cons c cs)
  show ?case
  proof (cases "isSpace c \<and> trimEnd cs = []")
    case True
    then have "trimEnd (firstToken cs) = []"
      using Cons.IH by (simp add: firstToken_def trimEnd_Nil)
    moreover from True have "c \<noteq> 44" "c \<noteq> 59" using not_space_marker by auto
    ultimately show ?thesis using True
      by (simp add: trimEnd_Cons firstToken_def trimEnd_Nil)
  next
    case False
    then have "trimEnd (c # cs) = c # trimEnd cs" by (simp add: trimEnd_Cons)
    then show ?thesis using Cons.IH
      by (simp add: firstToken_def trimEnd_Cons)
  qed
qed

text \<open>What the word list makes of a bullet line: the token after the marker.\<close>

lemma bullet_word:
  "trim (firstToken (dropWhile isSpace (trimEnd rest))) = trim (firstToken rest)"
proof -
  have "trim (firstToken (dropWhile isSpace (trimEnd rest))) =
      trimEnd (dropWhile isSpace (firstToken (trimEnd rest)))"
    by (simp add: trim_def trimStart_def firstToken_dropWhile)
  also have "\<dots> = dropWhile isSpace (trimEnd (firstToken (trimEnd rest)))"
    by (simp add: trimEnd_dropWhile)
  also have "\<dots> = dropWhile isSpace (trimEnd (firstToken rest))"
    by (simp add: trimEnd_firstToken)
  also have "\<dots> = trim (firstToken rest)"
    by (simp add: trim_def trimStart_def trimEnd_dropWhile)
  finally show ?thesis .
qed

lemma trim_bullet_line:
  assumes "\<forall>c \<in> set indent. isSpace c" and "\<not> isSpace m"
  shows "trim (indent @ m # rest) = m # trimEnd rest"
  using assms by (simp add: trim_def trimStart_def dropWhile_append3 trimEnd_Cons)

lemma splitOn_nonempty: "splitOn sep s \<noteq> []"
  by (induction s) (auto split: list.splits)

lemma splitOn_no_sep: "sep \<notin> set l \<Longrightarrow> splitOn sep l = [l]"
  by (induction l) auto

lemma splitOn_append:
  "sep \<notin> set l \<Longrightarrow> splitOn sep (l @ sep # s) = l # splitOn sep s"
  by (induction l) auto

lemma splitOn_joinWith:
  assumes "ls \<noteq> []" and "\<forall>l \<in> set ls. sep \<notin> set l"
  shows "splitOn sep (joinWith [sep] ls) = ls"
  using assms
proof (induction ls)
  case Nil
  then show ?case by simp
next
  case (Cons x xs)
  show ?case
  proof (cases xs)
    case Nil
    with Cons.prems show ?thesis by (simp add: splitOn_no_sep)
  next
    case (Cons y ys)
    with Cons.IH Cons.prems have "splitOn sep (joinWith [sep] (y # ys)) = y # ys" by simp
    with Cons Cons.prems show ?thesis by (simp add: splitOn_append)
  qed
qed

lemma sections_loop_append:
  "sections_loop (xs @ ys) st = sections_loop ys (sections_loop xs st)"
proof (induction xs arbitrary: st)
  case Nil
  show ?case by simp
next
  case (Cons x xs)
  obtain secs cur content where st: "st = (secs, cur, content)" by (cases st)
  show ?case unfolding st by (simp add: Cons.IH Let_def)
qed


lemma extractAcademicVocabulary_find:
  "extractAcademicVocabulary secs =
     (case find names_academic secs of Some (section, content) \<Rightarrow> extractWordList content
      | None \<Rightarrow> [])"
proof -
  have "(\<lambda>(section, content). str_includes section (str ''academic'')) = names_academic"
    by (auto simp: names_academic_def)
  then show ?thesis by (simp add: extractAcademicVocabulary_def)
qed

lemma not_heading_marker:
  "m = 45 \<or> m = 8226 \<Longrightarrow> \<not> matchesHeading (m # s)"
  by (auto simp: matchesHeading_def isDigit_def)

lemma trim_bullet:
  assumes "dash_or_dot_bullet (indent, m, rest)"
  shows "trim (bullet_line (indent, m, rest)) = m # trimEnd rest"
proof -
  from assms have "\<forall>c \<in> set indent. isSpace c" and "\<not> isSpace m"
    using not_space_marker by (auto simp: dash_or_dot_bullet_def)
  then show ?thesis by (simp add: bullet_line_def trim_bullet_line)
qed

lemma sections_loop_bullets:
  "\<forall>b \<in> set bs. dash_or_dot_bullet b \<Longrightarrow>
     sections_loop (map bullet_line bs) (secs, cur, content) =
       (secs, cur, content @ map bullet_trimmed bs)"
proof (induction bs arbitrary: content)
  case Nil
  show ?case by simp
next
  case (Cons b bs)
  obtain indent m rest where b: "b = (indent, m, rest)" by (cases b)
  from Cons.prems have wf: "dash_or_dot_bullet (indent, m, rest)" by (simp add: b)
  then have m: "m = 45 \<or> m = 8226" by (simp add: dash_or_dot_bullet_def)
  have t: "trim (bullet_line (indent, m, rest)) = m # trimEnd rest"
    using wf by (rule trim_bullet)
  have bt: "bullet_trimmed (indent, m, rest) = m # trimEnd rest"
    by (simp add: bullet_trimmed_def)
  from Cons.prems have "\<forall>b \<in> set bs. dash_or_dot_bullet b" by simp
  from Cons.IH [OF this] show ?case
    by (simp add: t not_heading_marker [OF m] b bt)
qed

lemma set_trimEnd: "set (trimEnd s) \<subseteq> set s"
  unfolding trimEnd_def using set_dropWhileD by fastforce

lemma wordsOfLines_bullets:
  "\<forall>b \<in> set bs. dash_or_dot_bullet b \<Longrightarrow>
     wordsOfLines (map bullet_trimmed bs) = filter (\<lambda>w. w \<noteq> []) (map bullet_item bs)"
proof (induction bs)
  case Nil
  show ?case by simp
next
  case (Cons b bs)
  obtain indent m rest where b: "b = (indent, m, rest)" by (cases b)
  from Cons.prems have m: "m = 45 \<or> m = 8226"
    by (simp add: b dash_or_dot_bullet_def)
  then have ns: "\<not> isSpace m" using not_space_marker by auto
  have t: "trim (m # trimEnd rest) = m # trimEnd rest"
    using trim_bullet_line [of "[]" m "trimEnd rest"] ns by (simp add: trimEnd_idem)
  have sw: "startsWith (m # trimEnd rest) [45] \<or> startsWith (m # trimEnd rest) [8226]"
    using m by auto
  have sm: "stripMarker (m # trimEnd rest) = dropWhile isSpace (trimEnd rest)"
    using m by (auto simp: stripMarker_def)
  have bt: "bullet_trimmed (indent, m, rest) = m # trimEnd rest"
    by (simp add: bullet_trimmed_def)
  have bi: "bullet_item (indent, m, rest) = trim (firstToken rest)"
    by (simp add: bullet_item_def)
  from Cons.prems have "\<forall>b \<in> set bs. dash_or_dot_bullet b" by simp
  from Cons.IH [OF this] sw show ?case
    by (auto simp: b bt bi t sm bullet_word Let_def)
qed

lemma extractWordList_bullets:
  assumes "\<forall>b \<in> set bs. dash_or_dot_bullet b" and "bs \<noteq> []"
  shows "extractWordList (joinWith [10] (map bullet_trimmed bs)) =
           filter (\<lambda>w. w \<noteq> []) (map bullet_item bs)"
proof -
  have "\<forall>l \<in> set (map bullet_trimmed bs). 10 \<notin> set l"
  proof
    fix l assume "l \<in> set (map bullet_trimmed bs)"
    then obtain indent m rest where b: "(indent, m, rest) \<in> set bs" and l: "l = m # trimEnd rest"
      by (auto simp: bullet_trimmed_def)
    from assms(1) b have "m = 45 \<or> m = 8226" "10 \<notin> set rest"
      by (auto simp: dash_or_dot_bullet_def)
    with set_trimEnd [of rest] show "10 \<notin> set l" unfolding l by auto
  qed
  with assms(2) have "splitOn 10 (joinWith [10] (map bullet_trimmed bs)) = map bullet_trimmed bs"
    by (intro splitOn_joinWith) simp_all
  with wordsOfLines_bullets [OF assms(1)] show ?thesis
    by (simp add: extractWordList_def)
qed


lemma extractSections_lines:
  assumes "\<forall>l \<in> set ls. 10 \<notin> set l"
  shows "extractSections (joinWith [10] ls) =
     (case sections_loop ls ([], str ''general'', []) of
        (secs, cur, content) \<Rightarrow> flushSection secs cur content)"
proof (cases "ls = []")
  case True
  then show ?thesis
    by (simp add: extractSections_def trim_Nil matchesHeading_def)
next
  case False
  with assms have "splitOn 10 (joinWith [10] ls) = ls"
    by (intro splitOn_joinWith)
  then show ?thesis by (simp add: extractSections_def)
qed

lemma find_update_other:
  "\<not> str_includes k (str ''academic'') \<Longrightarrow>
     find names_academic (AList.update k v secs) = find names_academic secs"
  by (induction secs) (auto simp: names_academic_def)

lemma find_update_new:
  "find names_academic secs = None \<Longrightarrow> str_includes k (str ''academic'') \<Longrightarrow>
     find names_academic (AList.update k v secs) = Some (k, v)"
  by (induction secs) (auto simp: names_academic_def split: if_splits)

lemma find_flush_other:
  "\<not> str_includes cur (str ''academic'') \<Longrightarrow>
     find names_academic (flushSection secs cur content) = find names_academic secs"
  by (simp add: flushSection_def find_update_other)

lemma sections_loop_no_academic:
  "\<forall>l \<in> set ls. matchesHeading (trim l) \<longrightarrow>
       \<not> str_includes (sectionName (trim l)) (str ''academic'') \<Longrightarrow>
   \<not> str_includes cur (str ''academic'') \<Longrightarrow>
   sections_loop ls (secs, cur, content) = (secs', cur', content') \<Longrightarrow>
     find names_academic (flushSection secs' cur' content') = find names_academic secs"
proof (induction ls arbitrary: secs cur content)
  case Nil
  then show ?case by (simp add: find_flush_other)
next
  case (Cons l ls)
  from Cons.prems(1) have rest: "\<forall>l \<in> set ls. matchesHeading (trim l) \<longrightarrow>
       \<not> str_includes (sectionName (trim l)) (str ''academic'')"
    by simp
  show ?case
  proof (cases "matchesHeading (trim l)")
    case True
    with Cons.prems(1) have n: "\<not> str_includes (sectionName (trim l)) (str ''academic'')"
      by simp
    from Cons.prems(3) True have "sections_loop ls
        (flushSection secs cur content, sectionName (trim l), []) = (secs', cur', content')"
      by (simp add: Let_def)
    from Cons.IH [OF rest n this] show ?thesis
      by (simp add: find_flush_other [OF Cons.prems(2)])
  next
    case False
    with Cons.prems(3) have "sections_loop ls
        (secs, cur, if trim l \<noteq> [] then content @ [trim l] else content) = (secs', cur', content')"
      by (simp add: Let_def split: if_splits)
    from Cons.IH [OF rest Cons.prems(2) this] show ?thesis .
  qed
qed

lemma academic_section_items:
  assumes nl: "\<forall>l \<in> set pre \<union> {h} \<union> set post. 10 \<notin> set l"
    and pre: "\<forall>kv \<in> set (extractSections (joinWith [10] pre)). \<not> names_academic kv"
    and h1: "matchesHeading (trim h)"
    and h2: "str_includes (sectionName (trim h)) (str ''academic'')"
    and bs: "\<forall>b \<in> set bs. dash_or_dot_bullet b"
    and p1: "post = [] \<or> matchesHeading (trim (hd post))"
    and p2: "\<forall>l \<in> set post. matchesHeading (trim l) \<longrightarrow>
               \<not> str_includes (sectionName (trim l)) (str ''academic'')"
  shows "extractAcademicVocabulary
           (extractSections (joinWith [10] (pre @ h # map bullet_line bs @ post))) =
         filter (\<lambda>w. w \<noteq> []) (map bullet_item bs)"
proof -
  let ?init = "([] :: sections, str ''general'', [] :: jsstring list)"
  let ?name = "sectionName (trim h)"
  let ?items = "map bullet_trimmed bs"
  obtain s0 c0 ct0 where l0: "sections_loop pre ?init = (s0, c0, ct0)"
    by (metis prod_cases3)
  let ?secs_pre = "flushSection s0 c0 ct0"
  let ?secs1 = "flushSection ?secs_pre ?name ?items"
  from nl have "\<forall>l \<in> set pre. 10 \<notin> set l" by simp
  then have "extractSections (joinWith [10] pre) = ?secs_pre"
    by (simp add: extractSections_lines l0)
  with pre have none: "find names_academic ?secs_pre = None"
    by (simp add: find_None_iff)
  have bl: "\<forall>l \<in> set (map bullet_line bs). 10 \<notin> set l"
    using bs by (force simp: dash_or_dot_bullet_def bullet_line_def)
  with nl have "\<forall>l \<in> set (pre @ h # map bullet_line bs @ post). 10 \<notin> set l"
    by auto
  then have ex: "extractSections (joinWith [10] (pre @ h # map bullet_line bs @ post)) =
      (case sections_loop (pre @ h # map bullet_line bs @ post) ?init of
         (secs, cur, content) \<Rightarrow> flushSection secs cur content)"
    by (rule extractSections_lines)
  have run: "sections_loop (pre @ h # map bullet_line bs @ post) ?init =
      sections_loop post (?secs_pre, ?name, ?items)"
  proof -
    have "sections_loop (pre @ h # map bullet_line bs @ post) ?init =
        sections_loop (map bullet_line bs @ post) (sections_loop [h] (s0, c0, ct0))"
      using sections_loop_append [of pre "h # map bullet_line bs @ post" ?init]
        sections_loop_append [of "[h]" "map bullet_line bs @ post" "(s0, c0, ct0)"]
      by (simp add: l0)
    also have "sections_loop [h] (s0, c0, ct0) = (?secs_pre, ?name, [])"
      using h1 by (simp add: Let_def)
    also have "sections_loop (map bullet_line bs @ post) (?secs_pre, ?name, []) =
        sections_loop post (sections_loop (map bullet_line bs) (?secs_pre, ?name, []))"
      by (rule sections_loop_append)
    also have "sections_loop (map bullet_line bs) (?secs_pre, ?name, []) =
        (?secs_pre, ?name, ?items)"
      using sections_loop_bullets [OF bs, of ?secs_pre ?name "[]"] by simp
    finally show ?thesis .
  qed
  obtain s2 c2 ct2 where l2: "sections_loop post (?secs_pre, ?name, ?items) = (s2, c2, ct2)"
    by (metis prod_cases3)
  have same: "find names_academic (flushSection s2 c2 ct2) = find names_academic ?secs1"
  proof (cases post)
    case Nil
    with l2 show ?thesis by simp
  next
    case (Cons p ps)
    with p1 have hp: "matchesHeading (trim p)" by simp
    with p2 Cons have np: "\<not> str_includes (sectionName (trim p)) (str ''academic'')" by simp
    from p2 Cons have rest: "\<forall>l \<in> set ps. matchesHeading (trim l) \<longrightarrow>
               \<not> str_includes (sectionName (trim l)) (str ''academic'')"
      by simp
    from l2 Cons hp have "sections_loop ps (?secs1, sectionName (trim p), []) = (s2, c2, ct2)"
      by (simp add: Let_def)
    from sections_loop_no_academic [OF rest np this] show ?thesis .
  qed
  have first: "find names_academic ?secs1 =
      (if bs = [] then None else Some (?name, joinWith [10] ?items))"
    using none h2 by (simp add: flushSection_def [of ?secs_pre] find_update_new)
  have "extractAcademicVocabulary
           (extractSections (joinWith [10] (pre @ h # map bullet_line bs @ post))) =
        (if bs = [] then [] else extractWordList (joinWith [10] ?items))"
    by (simp add: extractAcademicVocabulary_find ex run l2 same first)
  then show ?thesis
    using extractWordList_bullets [OF bs] by simp
qed

lemma academic_heading:
  "matchesHeading (trim (str ''1. Academic Vocabulary:''))"
  "str_includes (sectionName (trim (str ''1. Academic Vocabulary:''))) (str ''academic'')"
  "10 \<notin> set (str ''1. Academic Vocabulary:'')"
  by (simp_all add: str_def trim_defs char_class_defs matchesHeading_def sectionName_def
      toLowerCase_def lowerUnit_def stripNumber_def)

lemma no_sections_before: "set (extractSections (joinWith [10] [])) = {}"
  by (simp add: extractSections_def trim_Nil matchesHeading_def flushSection_def)

lemma academicVocabulary_parse:
  "academicVocabulary (parseVocabularyResponse r) = extractAcademicVocabulary (extractSections r)"
  by (simp add: parseVocabularyResponse_def Let_def)

text \<open>
  C9, as stated, fails: the item is not kept verbatim. \<open>extractWordList\<close> keeps the part
  of a bullet item before its first comma or semicolon, so the bullet
  \<open>- analyze, to examine\<close> yields \<open>analyze\<close>.
\<close>

theorem bullet_item_not_verbatim_counterexample:
  "academicVocabulary (parseVocabularyResponse
     (str ''1. Academic Vocabulary:'' @ [10] @ str ''- analyze, to examine'')) = [str ''analyze'']"
proof -
  let ?b = "([], 45, str '' analyze, to examine'') :: bullet"
  have r: "str ''1. Academic Vocabulary:'' @ [10] @ str ''- analyze, to examine'' =
      joinWith [10] ([] @ str ''1. Academic Vocabulary:'' # map bullet_line [?b] @ [])"
    by (simp add: bullet_line_def str_def)
  have b: "\<forall>b \<in> set [?b]. dash_or_dot_bullet b"
    by (simp add: dash_or_dot_bullet_def str_def)
  have i: "bullet_item ?b = str ''analyze''"
    by (simp add: bullet_item_def firstToken_def str_def trim_defs isSpace_def)
  have "extractAcademicVocabulary (extractSections
      (joinWith [10] ([] @ str ''1. Academic Vocabulary:'' # map bullet_line [?b] @ []))) =
      filter (\<lambda>w. w \<noteq> []) (map bullet_item [?b])"
    by (rule academic_section_items)
       (simp_all add: academic_heading no_sections_before b del: joinWith.simps)
  moreover have "str ''analyze'' \<noteq> []"
    by (simp add: str_def)
  ultimately show ?thesis
    unfolding academicVocabulary_parse r by (simp add: i)
qed

text \<open>
  C9, amended. Let a response consist of lines in which a heading line whose section
  name contains \<open>academic\<close> (such as \<open>1. Academic Vocabulary:\<close>) is followed by bullet
  lines with the marker \<open>-\<close> or U+2022, up to the end of the text or the next
  heading, and let no other section of the response have \<open>academic\<close> in its name.
  Then the academic-vocabulary list holds, for each bullet line in order, the text
  after the marker cut at its first comma or semicolon and trimmed, without the items
  that come out empty.
\<close>

theorem academic_vocabulary_is_first_tokens:
  assumes "\<forall>l \<in> set pre \<union> {h} \<union> set post. 10 \<notin> set l"
    and "\<forall>kv \<in> set (extractSections (joinWith [10] pre)). \<not> names_academic kv"
    and "matchesHeading (trim h)"
    and "str_includes (sectionName (trim h)) (str ''academic'')"
    and "\<forall>b \<in> set bullets. dash_or_dot_bullet b"
    and "post = [] \<or> matchesHeading (trim (hd post))"
    and "\<forall>l \<in> set post. matchesHeading (trim l) \<longrightarrow>
           \<not> str_includes (sectionName (trim l)) (str ''academic'')"
  shows "academicVocabulary (parseVocabularyResponse
           (joinWith [10] (pre @ h # map bullet_line bullets @ post))) =
         filter (\<lambda>w. w \<noteq> []) (map bullet_item bullets)"
  unfolding academicVocabulary_parse using assms by (rule academic_section_items)

theorem academic_vocabulary_witness:
  "academicVocabulary (parseVocabularyResponse
     (str ''1. Academic Vocabulary:'' @ [10] @ str ''- derive; obtain'' @ [10] @
      str ''   '' @ [8226] @ str '' infer '' @ [10] @
      str ''2. Collocations And Phrases:'' @ [10] @ str ''- take part'')) =
   [str ''derive'', str ''infer'']"
proof -
  let ?h = "str ''1. Academic Vocabulary:''"
  let ?b1 = "([], 45, str '' derive; obtain'') :: bullet"
  let ?b2 = "(str ''   '', 8226, str '' infer '') :: bullet"
  let ?post = "[str ''2. Collocations And Phrases:'', str ''- take part'']"
  have r: "str ''1. Academic Vocabulary:'' @ [10] @ str ''- derive; obtain'' @ [10] @
      str ''   '' @ [8226] @ str '' infer '' @ [10] @
      str ''2. Collocations And Phrases:'' @ [10] @ str ''- take part'' =
      joinWith [10] ([] @ ?h # map bullet_line [?b1, ?b2] @ ?post)"
    by (simp add: bullet_line_def str_def)
  have nl: "\<forall>l \<in> set [] \<union> {?h} \<union> set ?post. 10 \<notin> set l"
    by (simp add: str_def)
  have pre: "\<forall>kv \<in> set (extractSections (joinWith [10] [])). \<not> names_academic kv"
    by (simp only: no_sections_before) simp
  have b: "\<forall>b \<in> set [?b1, ?b2]. dash_or_dot_bullet b"
    by (simp add: dash_or_dot_bullet_def str_def isSpace_def)
  have p1: "?post = [] \<or> matchesHeading (trim (hd ?post))"
    by (simp add: str_def trim_defs char_class_defs matchesHeading_def)
  have p2: "\<forall>l \<in> set ?post. matchesHeading (trim l) \<longrightarrow>
           \<not> str_includes (sectionName (trim l)) (str ''academic'')"
    by (simp add: str_def trim_defs char_class_defs matchesHeading_def sectionName_def
        toLowerCase_def lowerUnit_def stripNumber_def)
  have i: "bullet_item ?b1 = str ''derive''" "bullet_item ?b2 = str ''infer''"
    by (simp_all add: bullet_item_def firstToken_def str_def trim_defs isSpace_def)
  have ne: "str ''derive'' \<noteq> []" "str ''infer'' \<noteq> []"
    by (simp_all add: str_def)
  from academic_vocabulary_is_first_tokens [OF nl pre academic_heading(1,2) b p1 p2]
  show ?thesis
    unfolding r by (simp add: i ne)
qed

end
